theory Spec2Isabelle
  imports
    Main
    "HOL-Library.AList"
    "HOL-Library.Sublist"
    "HOL-Library.Char_ord"
    "HOL-Library.List_Lexorder"
    "HOL-Library.Multiset"
begin

unbundle bit_operations_syntax

section \<open>JavaScript values\<close>

text \<open>
  The schema documents handled by hosby-cli are the values \<^verbatim>\<open>JSON.parse\<close> produces. An
  object is the list of its own enumerable properties in enumeration order; a well-formed
  object has pairwise distinct keys. Strings are lists of code units below 256 (one
  \<^typ>\<open>char\<close> per code unit) and numbers are the integers below \<open>10^21\<close> in magnitude,
  which JavaScript prints as plain decimal digits. A property that is absent
  (\<^verbatim>\<open>undefined\<close>) is \<^term>\<open>None\<close>.
\<close>

datatype json =
    JNull
  | JBool bool
  | JNum int
  | JStr string
  | JArr "json list"
  | JObj "(string \<times> json) list"

text \<open>Exceptions thrown by the code are values.\<close>

datatype js_error =
    TypeError
  | Error string

text \<open>\<^verbatim>\<open>!v\<close> is false exactly on the truthy values.\<close>

fun truthy :: "json \<Rightarrow> bool" where
  "truthy JNull = False"
| "truthy (JBool b) = b"
| "truthy (JNum n) = (n \<noteq> 0)"
| "truthy (JStr s) = (s \<noteq> [])"
| "truthy (JArr xs) = True"
| "truthy (JObj kvs) = True"

text \<open>\<^verbatim>\<open>typeof v === 'object'\<close>: objects, arrays and \<^verbatim>\<open>null\<close>.\<close>

fun typeof_object :: "json \<Rightarrow> bool" where
  "typeof_object JNull = True"
| "typeof_object (JArr xs) = True"
| "typeof_object (JObj kvs) = True"
| "typeof_object v = False"

fun typeof_string :: "json \<Rightarrow> bool" where
  "typeof_string (JStr s) = True"
| "typeof_string v = False"

fun isArray :: "json \<Rightarrow> bool" where
  "isArray (JArr xs) = True"
| "isArray v = False"

subsection \<open>Strings\<close>

text \<open>
  \<^verbatim>\<open>String.prototype.toLowerCase\<close> on code units below 256: the upper-case letters are
  \<open>A\<close>..\<open>Z\<close> and \<open>0xC0\<close>..\<open>0xDE\<close> without \<open>0xD7\<close>, each 32 below its lower-case form.
\<close>

definition lower_char :: "char \<Rightarrow> char" where
  "lower_char c =
     (let n = (of_char c :: nat)
      in if (65 \<le> n \<and> n \<le> 90) \<or> (192 \<le> n \<and> n \<le> 222 \<and> n \<noteq> 215)
         then char_of (n + 32) else c)"

definition toLowerCase :: "string \<Rightarrow> string" where
  "toLowerCase s = map lower_char s"

text \<open>\<^verbatim>\<open>startsWith\<close>, \<^verbatim>\<open>endsWith\<close> and \<^verbatim>\<open>includes\<close> on strings.\<close>

definition startsWith :: "string \<Rightarrow> string \<Rightarrow> bool" where
  "startsWith s p = prefix p s"

definition endsWith :: "string \<Rightarrow> string \<Rightarrow> bool" where
  "endsWith s p = suffix p s"

definition includes_str :: "string \<Rightarrow> string \<Rightarrow> bool" where
  "includes_str s p = sublist p s"

text \<open>Decimal digits of a natural number, and \<^verbatim>\<open>String(n)\<close> for an integer.\<close>

definition digit_char :: "nat \<Rightarrow> char" where
  "digit_char d = (if d < 10 then char_of (48 + d) else char_of (87 + d))"

fun radix_digits :: "nat \<Rightarrow> nat \<Rightarrow> string" where
  "radix_digits b n =
     (if b < 2 \<or> n < b then [digit_char n]
      else radix_digits b (n div b) @ [digit_char (n mod b)])"

declare radix_digits.simps [simp del]

definition number_toString :: "int \<Rightarrow> string" where
  "number_toString n =
     (if n < 0 then CHR ''-'' # radix_digits 10 (nat (- n)) else radix_digits 10 (nat n))"

text \<open>\<^verbatim>\<open>Array.prototype.join\<close> on strings.\<close>

fun join :: "string \<Rightarrow> string list \<Rightarrow> string" where
  "join sep [] = []"
| "join sep [x] = x"
| "join sep (x # y # ys) = x @ sep @ join sep (y # ys)"

text \<open>
  \<^verbatim>\<open>String(v)\<close>. An array prints its elements joined by commas, with \<^verbatim>\<open>null\<close>
  elements printed as the empty string.
\<close>

fun js_String :: "json \<Rightarrow> string" where
  "js_String JNull = ''null''"
| "js_String (JBool b) = (if b then ''true'' else ''false'')"
| "js_String (JNum n) = number_toString n"
| "js_String (JStr s) = s"
| "js_String (JArr xs) = join '','' (map (\<lambda>x. if x = JNull then [] else js_String x) xs)"
| "js_String (JObj kvs) = ''[object Object]''"

subsection \<open>Properties\<close>

text \<open>
  \<^verbatim>\<open>Object.keys\<close>, \<^verbatim>\<open>Object.entries\<close> and object spread enumerate the own enumerable
  properties: those of an object, the indices of an array, the indices of a string.
\<close>

definition index_props :: "'a list \<Rightarrow> (string \<times> 'a) list" where
  "index_props xs = zip (map (radix_digits 10) [0..<length xs]) xs"

fun own_props :: "json \<Rightarrow> (string \<times> json) list" where
  "own_props (JObj kvs) = kvs"
| "own_props (JArr xs) = index_props xs"
| "own_props (JStr s) = index_props (map (\<lambda>c. JStr [c]) s)"
| "own_props v = []"

text \<open>
  Reading a named property \<^verbatim>\<open>v.k\<close> for the names the code reads (\<^verbatim>\<open>tables\<close>,
  \<^verbatim>\<open>version\<close>, \<^verbatim>\<open>metadata\<close>, \<^verbatim>\<open>type\<close>): only an object can carry them.
\<close>

fun field :: "string \<Rightarrow> json \<Rightarrow> json option" where
  "field k (JObj kvs) = map_of kvs k"
| "field k v = None"

definition truthy_opt :: "json option \<Rightarrow> bool" where
  "truthy_opt p = (case p of None \<Rightarrow> False | Some v \<Rightarrow> truthy v)"

text \<open>
  \<^verbatim>\<open>v.k = x\<close> on an object or array. The assignment keeps the place of an existing key
  and appends a new one. An array that gains a named property is carried on as the
  object of its index properties and that property: the code reads it by property name
  only.
\<close>

definition set_field :: "string \<Rightarrow> json \<Rightarrow> json \<Rightarrow> json" where
  "set_field k x v = JObj (AList.update k x (own_props v))"

section \<open>Sanitizing and filtering a schema\<close>

subsection \<open>\<^verbatim>\<open>sanitizeSchema\<close>\<close>

definition VALID_COLUMN_TYPES :: "string list" where
  "VALID_COLUMN_TYPES =
     [''string'', ''number'', ''boolean'', ''date'', ''array'', ''object'', ''enum'']"

text \<open>The body of the loop over the columns of one table, in the order of its branches.\<close>

definition sanitize_column :: "json \<Rightarrow> json" where
  "sanitize_column columnDef =
     (if typeof_object columnDef \<and> columnDef \<noteq> JNull then
        (case field ''type'' columnDef of
           Some (JStr ty) \<Rightarrow>
             if ty \<notin> set VALID_COLUMN_TYPES
             then set_field ''type'' (JStr ''string'') columnDef
             else columnDef
         | _ \<Rightarrow> set_field ''type'' (JStr ''string'') columnDef)
      else if typeof_string columnDef then
        (let s = js_String columnDef; lowerVal = toLowerCase s
         in if startsWith lowerVal ''enum['' \<or> startsWith lowerVal ''enum:['' then columnDef
            else if list_ex (\<lambda>type. lowerVal = type \<or> startsWith lowerVal (type @ '':'')
                                    \<or> startsWith lowerVal (type @ ''['')) VALID_COLUMN_TYPES
                 then columnDef
                 else JStr ''string'')
      else if isArray columnDef then JStr ''array''
      else JStr (js_String columnDef))"

text \<open>
  Assigning to the properties of a table in place keeps the container: an object stays
  an object and an array stays an array.
\<close>

fun map_props :: "(json \<Rightarrow> json) \<Rightarrow> json \<Rightarrow> json" where
  "map_props f (JObj kvs) = JObj (map (\<lambda>(k, v). (k, f v)) kvs)"
| "map_props f (JArr xs) = JArr (map f xs)"
| "map_props f v = v"

definition sanitize_table :: "json \<Rightarrow> json" where
  "sanitize_table t =
     (if \<not> truthy t \<or> \<not> typeof_object t then JObj []
      else map_props sanitize_column t)"

text \<open>
  The loop over the tables. On a non-empty string the first index holds a one-character
  string, which is not an object, and the assignment \<^verbatim>\<open>tables[table] = {}\<close> to a
  property of a primitive string throws in strict mode. A number or a boolean has no
  keys and is left as it is.
\<close>

fun sanitize_tables :: "json \<Rightarrow> js_error + json" where
  "sanitize_tables (JStr s) = (if s = [] then Inr (JStr s) else Inl TypeError)"
| "sanitize_tables ts = Inr (map_props sanitize_table ts)"

definition sanitizeSchema :: "json \<Rightarrow> js_error + json" where
  "sanitizeSchema schema =
     (if \<not> truthy schema \<or> \<not> typeof_object schema then Inr (JObj [(''tables'', JObj [])])
      else if \<not> truthy_opt (field ''tables'' schema)
      then Inr (set_field ''tables'' (JObj []) schema)
      else
        (case sanitize_tables (the (field ''tables'' schema)) of
           Inl e \<Rightarrow> Inl e
         | Inr ts \<Rightarrow> Inr (set_field ''tables'' ts schema)))"

subsection \<open>\<^verbatim>\<open>filterSchema\<close>\<close>

definition IGNORED_COMPONENTS :: "string list" where
  "IGNORED_COMPONENTS =
     [''buttonprops'', ''buttonpropss'', ''badgeprops'', ''badgepropss'',
      ''sheetcontentprops'', ''sheetcontentpropss'', ''sheetprops'', ''sheetpropss'',
      ''tooltipprops'', ''tooltippropss'', ''toastprops'', ''toastpropss'',
      ''modalprops'', ''modalpropss'', ''columnmodalprops'', ''columnmodalpropss'',
      ''droppablecolumnprops'', ''droppablecolumnpropss'', ''taskcardprops'',
      ''taskcardpropss'', ''taskmodalprops'', ''taskmodalpropss'',
      ''calendar'', ''calendars'', ''command'', ''commands'', ''dialog'', ''dialogs'',
      ''alert'', ''alerts'', ''alertdialog'', ''alertdialogs'', ''accordion'',
      ''accordions'', ''tooltip'', ''tooltips'', ''toast'', ''toasts'',
      ''state'', ''states'']"

text \<open>
  The test of the regular expression \<^verbatim>\<open>'^' + pattern.replace(/\*/g, '.*') + '$'\<close> with
  the flag \<^verbatim>\<open>i\<close>, for a pattern of letters and stars: a star stands for any run of
  characters without a line break, any other character for itself, case-insensitively.
\<close>

fun wildcard_test :: "string \<Rightarrow> string \<Rightarrow> bool" where
  "wildcard_test [] s = (s = [])"
| "wildcard_test (p # ps) s =
     (if p = CHR ''*''
      then list_ex (\<lambda>n. (\<forall>c \<in> set (take n s). c \<noteq> CHR 0x0A \<and> c \<noteq> CHR 0x0D)
                         \<and> wildcard_test ps (drop n s)) [0..<Suc (length s)]
      else (case s of [] \<Rightarrow> False
            | c # cs \<Rightarrow> lower_char c = lower_char p \<and> wildcard_test ps cs))"

definition isIgnoredByPattern :: "string \<Rightarrow> bool" where
  "isIgnoredByPattern tableLower =
     list_ex (\<lambda>pattern.
        if CHR ''*'' \<in> set pattern then wildcard_test pattern tableLower
        else tableLower = toLowerCase pattern) IGNORED_COMPONENTS"

definition uiPatterns :: "string list" where
  "uiPatterns =
     [''props'', ''state'', ''config'', ''options'', ''context'',
      ''button'', ''modal'', ''dialog'', ''card'', ''panel'', ''menu'', ''nav'',
      ''form'', ''input'', ''select'', ''checkbox'', ''radio'', ''switch'',
      ''dropdown'', ''tooltip'', ''popover'', ''toast'', ''notification'',
      ''spinner'', ''loader'', ''progress'', ''skeleton'', ''icon'',
      ''avatar'', ''badge'', ''tag'', ''label'', ''tab'', ''accordion'',
      ''slider'', ''pagination'', ''breadcrumb'', ''stepper'', ''timeline'',
      ''component'', ''element'', ''widget'', ''view'', ''control'', ''renderer'']"

definition isUIComponentTable :: "string \<Rightarrow> bool" where
  "isUIComponentTable tableName =
     (if list_ex (\<lambda>pattern. endsWith tableName pattern \<or> endsWith tableName (pattern @ ''s''))
           uiPatterns
      then True
      else if includes_str tableName ''ui'' \<or> includes_str tableName ''layout''
            \<or> includes_str tableName ''style'' \<or> includes_str tableName ''theme''
            \<or> includes_str tableName ''display''
      then True
      else False)"

text \<open>
  One round of the loop over \<^verbatim>\<open>Object.entries(schema.tables)\<close>: whether the table is
  copied. The copy \<^verbatim>\<open>filtered.tables[table] = columns\<close> is an assignment to a fresh
  object literal, where the key \<^verbatim>\<open>__proto__\<close> sets the prototype and creates no
  property.
\<close>

definition keeps_table :: "string \<times> json \<Rightarrow> bool" where
  "keeps_table entry =
     (case entry of (table, columns) \<Rightarrow>
        if \<not> truthy columns \<or> \<not> typeof_object columns then False
        else
          (let hasColumns = (length (own_props columns) > 0);
               tableLower = toLowerCase table
           in hasColumns \<and> \<not> isIgnoredByPattern tableLower \<and> \<not> isUIComponentTable tableLower
              \<and> table \<noteq> ''__proto__''))"

text \<open>\<^verbatim>\<open>a || b\<close> for a property that may be absent.\<close>

definition or_default :: "json option \<Rightarrow> json \<Rightarrow> json" where
  "or_default p d = (case p of None \<Rightarrow> d | Some v \<Rightarrow> if truthy v then v else d)"

definition filterSchema :: "json \<Rightarrow> js_error + json" where
  "filterSchema schema =
     (if \<not> truthy schema \<or> \<not> typeof_object schema
      then Inl (Error ''Invalid schema: Schema must be an object'')
      else if \<not> truthy_opt (field ''tables'' schema)
              \<or> \<not> typeof_object (the (field ''tables'' schema))
      then Inr (JObj [(''tables'', JObj [])])
      else Inr (JObj
        [(''tables'', JObj (filter keeps_table (own_props (the (field ''tables'' schema))))),
         (''version'', or_default (field ''version'' schema) (JStr ''1.0.0'')),
         (''metadata'', or_default (field ''metadata'' schema) (JObj []))]))"

text \<open>
  \<^verbatim>\<open>processAndFilterSchema\<close> runs the two passes in a row:
  \<^verbatim>\<open>schema = sanitizeSchema(schema); filteredSchema = filterSchema(schema)\<close>.
\<close>

definition sanitize_then_filter :: "json \<Rightarrow> js_error + json" where
  "sanitize_then_filter schema =
     (case sanitizeSchema schema of Inl e \<Rightarrow> Inl e | Inr s \<Rightarrow> filterSchema s)"

subsection \<open>The column type vocabulary\<close>

text \<open>
  A column value belongs to the vocabulary when it is a string that, in lower case,
  starts with an enum marker or is a base type, possibly followed by \<^verbatim>\<open>:\<close> or
  \<^verbatim>\<open>[\<close>, or when it is a descriptor object whose \<^verbatim>\<open>type\<close> is a base type.
\<close>

fun in_vocabulary :: "json \<Rightarrow> bool" where
  "in_vocabulary (JStr s) =
     (let l = toLowerCase s
      in startsWith l ''enum['' \<or> startsWith l ''enum:[''
         \<or> (\<exists>ty \<in> set VALID_COLUMN_TYPES.
               l = ty \<or> startsWith l (ty @ '':'') \<or> startsWith l (ty @ ''['')))"
| "in_vocabulary (JObj kvs) = (\<exists>ty \<in> set VALID_COLUMN_TYPES. map_of kvs ''type'' = Some (JStr ty))"
| "in_vocabulary v = False"

text \<open>The values that are neither strings nor objects nor arrays.\<close>

fun other_scalar :: "json \<Rightarrow> bool" where
  "other_scalar JNull = True"
| "other_scalar (JBool b) = True"
| "other_scalar (JNum n) = True"
| "other_scalar v = False"

text \<open>
  A number is printed by \<^verbatim>\<open>String\<close> as its plain decimal digits when it is an integer
  that a double holds exactly, which every integer up to \<open>2^53 - 1\<close> in magnitude is.
\<close>

definition safe_number :: "json \<Rightarrow> bool" where
  "safe_number v = (case v of JNum n \<Rightarrow> \<bar>n\<bar> \<le> 9007199254740991 | _ \<Rightarrow> True)"

text \<open>
  A document with one table of four columns: a string that is no column type, a string
  that is one, a column \<open>v\<close> and an array column.
\<close>

definition users_document :: "json \<Rightarrow> json list \<Rightarrow> json" where
  "users_document v xs = JObj [(''tables'', JObj [(''users'',
      JObj [(''name'', JStr ''varchar''), (''score'', JStr ''number''),
            (''age'', v), (''tags'', JArr xs)])])]"

text \<open>
  The \<^verbatim>\<open>tables\<close> property of a document is usable by the two passes when it is absent,
  falsy, or an object or array. A non-empty string makes the sanitizer throw, and a
  non-zero number or \<^verbatim>\<open>true\<close> makes the filter return \<^verbatim>\<open>{tables: {}}\<close> alone.
\<close>

definition tables_usable :: "json \<Rightarrow> bool" where
  "tables_usable D =
     (case field ''tables'' D of None \<Rightarrow> True | Some T \<Rightarrow> \<not> truthy T \<or> typeof_object T)"

text \<open>Two documents used below.\<close>

definition doc2 :: json where
  "doc2 = JObj
     [(''tables'', JObj [(''orders'', JObj [(''id'', JStr ''uuid'')]),
                         (''buttonprops'', JObj [(''label'', JStr ''string'')])]),
      (''metadata'', JObj [(''project'', JObj [(''id'', JStr ''p1''), (''name'', JStr ''shop'')])]),
      (''version'', JStr ''2.1.0'')]"

definition doc3 :: json where
  "doc3 = JObj [(''tables'', JObj []), (''version'', JStr []), (''owner'', JStr ''me'')]"

section \<open>Merging two schemas\<close>

text \<open>
  Object spread \<^verbatim>\<open>{...a, ...b}\<close> copies the own enumerable properties of each operand in
  turn into the object under construction: an existing key keeps its place and takes
  the new value, a new key is appended. Spreading \<^verbatim>\<open>undefined\<close>, \<^verbatim>\<open>null\<close>, a number
  or a boolean copies nothing.
\<close>

definition assign_props :: "(string \<times> json) list \<Rightarrow> (string \<times> json) list \<Rightarrow> (string \<times> json) list" where
  "assign_props acc ps = fold (\<lambda>(k, v) acc. AList.update k v acc) ps acc"

definition spread_props :: "json option \<Rightarrow> (string \<times> json) list" where
  "spread_props p = (case p of None \<Rightarrow> [] | Some v \<Rightarrow> own_props v)"

text \<open>
  \<^verbatim>\<open>mergeSchemas\<close>. Reading \<^verbatim>\<open>.tables\<close> of \<^verbatim>\<open>null\<close> throws; on any other value that is
  not an object the property is \<^verbatim>\<open>undefined\<close>.
\<close>

definition mergeSchemas :: "json \<Rightarrow> json \<Rightarrow> js_error + json" where
  "mergeSchemas localSchema serverSchema =
     (if localSchema = JNull \<or> serverSchema = JNull then Inl TypeError
      else Inr (JObj
        (AList.update ''tables''
           (JObj (assign_props (assign_props [] (spread_props (field ''tables'' localSchema)))
                               (spread_props (field ''tables'' serverSchema))))
           (assign_props (assign_props [] (own_props localSchema)) (own_props serverSchema)))))"

text \<open>A local and a server schema that share one table.\<close>

definition local4 :: json where
  "local4 = JObj
     [(''tables'', JObj [(''users'', JObj [(''id'', JStr ''string''), (''nick'', JStr ''string'')]),
                         (''notes'', JObj [(''body'', JStr ''string'')])]),
      (''version'', JStr ''1.0.0'')]"

definition server4 :: json where
  "server4 = JObj
     [(''tables'', JObj [(''users'', JObj [(''id'', JStr ''string''), (''email'', JStr ''string'')]),
                         (''orders'', JObj [(''total'', JStr ''number'')])]),
      (''version'', JStr ''1.1.0'')]"

section \<open>The schema hash\<close>

subsection \<open>\<^verbatim>\<open>JSON.stringify\<close> with the key-sorting replacer\<close>

text \<open>
  A string is printed between double quotes. The quote and the backslash are escaped
  with a backslash, the control characters below \<open>0x20\<close> by their short escape or by
  \<^verbatim>\<open>\u00XX\<close> in lower-case hexadecimal; every other code unit stands for itself.
\<close>

definition quote_char :: "char \<Rightarrow> string" where
  "quote_char c =
     (let n = (of_char c :: nat)
      in if n = 0x22 then [CHR 0x5C, CHR 0x22]
         else if n = 0x5C then [CHR 0x5C, CHR 0x5C]
         else if n = 0x08 then [CHR 0x5C, CHR ''b'']
         else if n = 0x0C then [CHR 0x5C, CHR ''f'']
         else if n = 0x0A then [CHR 0x5C, CHR ''n'']
         else if n = 0x0D then [CHR 0x5C, CHR ''r'']
         else if n = 0x09 then [CHR 0x5C, CHR ''t'']
         else if n < 0x20
           then [CHR 0x5C, CHR ''u'', CHR ''0'', CHR ''0'', digit_char (n div 16), digit_char (n mod 16)]
         else [c])"

definition quote :: "string \<Rightarrow> string" where
  "quote s = CHR 0x22 # concat (map quote_char s) @ [CHR 0x22]"

text \<open>
  The own properties of an object are enumerated with the array indices first, in
  ascending numeric order, and the other keys after them in the order of their creation.
  An array index is the decimal form, without leading zeros, of a number below
  \<open>2^32 - 1\<close>.
\<close>

definition decimal_value :: "string \<Rightarrow> int" where
  "decimal_value k = foldl (\<lambda>a c. 10 * a + (of_char c - 48)) 0 k"

definition is_array_index :: "string \<Rightarrow> bool" where
  "is_array_index k =
     (k \<noteq> [] \<and> list_all (\<lambda>c. CHR ''0'' \<le> c \<and> c \<le> CHR ''9'') k
      \<and> (k = ''0'' \<or> hd k \<noteq> CHR ''0'') \<and> decimal_value k < 4294967295)"

definition property_order :: "(string \<times> 'a) list \<Rightarrow> (string \<times> 'a) list" where
  "property_order ps =
     sort_key (\<lambda>p. decimal_value (fst p)) (filter (\<lambda>p. is_array_index (fst p)) ps)
     @ filter (\<lambda>p. \<not> is_array_index (fst p)) ps"

text \<open>
  The replacer of \<^verbatim>\<open>getSchemaHash\<close> rebuilds every object that is not an array:
  \<^verbatim>\<open>Object.keys(value).sort()\<close> orders the keys by code units, and the properties are
  assigned in that order to a fresh object literal. There the key \<^verbatim>\<open>__proto__\<close> sets
  the prototype and creates no property. The properties of the new object are then
  printed in their enumeration order.
\<close>

definition sorted_copy :: "(string \<times> 'a) list \<Rightarrow> (string \<times> 'a) list" where
  "sorted_copy ps = property_order (filter (\<lambda>p. fst p \<noteq> ''__proto__'') (sort_key fst ps))"

text \<open>
  The string \<^verbatim>\<open>stableJson\<close>. The values of a document come from \<^verbatim>\<open>JSON.parse\<close>, so
  every property is printed; the members of an object are printed from the sorted
  copy, the elements of an array in their order.
\<close>

fun stableJson :: "json \<Rightarrow> string" where
  "stableJson JNull = ''null''"
| "stableJson (JBool b) = (if b then ''true'' else ''false'')"
| "stableJson (JNum n) = number_toString n"
| "stableJson (JStr s) = quote s"
| "stableJson (JArr xs) = ''['' @ join '','' (map stableJson xs) @ '']''"
| "stableJson (JObj kvs) =
     ''{'' @ join '','' (map (\<lambda>p. quote (fst p) @ '':'' @ snd p)
                          (sorted_copy (map (\<lambda>(k, v). (k, stableJson v)) kvs))) @ ''}''"

subsection \<open>The rolling hash\<close>

text \<open>
  \<^verbatim>\<open>hash << 5\<close> converts its operand to a 32-bit integer, shifts it, and reads the result
  as a signed 32-bit integer. The two additions are additions of numbers: the running
  value is not wrapped to 32 bits. Numbers are doubles, which represent every integer
  up to \<open>2^53\<close> in magnitude, and the running value grows by at most \<open>2^31 + 255\<close> per
  character, so the integer arithmetic below is the arithmetic of the code for every
  string of up to \<open>2^21\<close> characters.
\<close>

definition ToInt32 :: "int \<Rightarrow> int" where
  "ToInt32 x = (let m = x mod 2 ^ 32 in if m \<ge> 2 ^ 31 then m - 2 ^ 32 else m)"

definition shift_left_5 :: "int \<Rightarrow> int" where
  "shift_left_5 h = ToInt32 (push_bit 5 (ToInt32 h))"

definition hash_step :: "int \<Rightarrow> char \<Rightarrow> int" where
  "hash_step hash c = (shift_left_5 hash + hash) + of_char c"

definition hash_loop :: "string \<Rightarrow> int" where
  "hash_loop s = foldl hash_step 5381 s"

text \<open>\<^verbatim>\<open>hash & 0x7FFFFFFF\<close> on 32-bit integers, and \<^verbatim>\<open>toString(36)\<close>.\<close>

definition and_7FFFFFFF :: "int \<Rightarrow> int" where
  "and_7FFFFFFF h = ToInt32 h AND 0x7FFFFFFF"

definition toString36 :: "int \<Rightarrow> string" where
  "toString36 n =
     (if n < 0 then CHR ''-'' # radix_digits 36 (nat (- n)) else radix_digits 36 (nat n))"

definition getSchemaHash :: "json \<Rightarrow> string" where
  "getSchemaHash schema = toString36 (and_7FFFFFFF (hash_loop (stableJson schema)))"

subsection \<open>Documents that differ in the order of keys only\<close>

text \<open>
  Two values have the same content up to the order of object keys when they are equal,
  or arrays whose elements are so related in order, or objects of which one lists, in
  any order, the keys of the other with related values. The keys of an object are
  pairwise distinct.
\<close>

inductive key_reordered :: "json \<Rightarrow> json \<Rightarrow> bool" where
  same: "key_reordered v v"
| arr: "list_all2 key_reordered xs ys \<Longrightarrow> key_reordered (JArr xs) (JArr ys)"
| obj: "distinct (map fst kvs) \<Longrightarrow> map fst kvs = map fst kvs' \<Longrightarrow>
        list_all2 key_reordered (map snd kvs) (map snd kvs') \<Longrightarrow>
        mset kvs'' = mset kvs' \<Longrightarrow> key_reordered (JObj kvs) (JObj kvs'')"

text \<open>The hash of Bernstein over the integers, without any wrapping.\<close>

definition djb2 :: "string \<Rightarrow> int" where
  "djb2 s = foldl (\<lambda>h c. 33 * h + of_char c) 5381 s"

text \<open>Two documents that differ in the order of their keys, and a document around an array.\<close>

definition docA :: json where
  "docA = JObj [(''tables'', JObj [(''users'', JObj [(''id'', JStr ''string''), (''name'', JStr ''string'')])]),
                (''version'', JStr ''1'')]"

definition docB :: json where
  "docB = JObj [(''version'', JStr ''1''),
                (''tables'', JObj [(''users'', JObj [(''name'', JStr ''string''), (''id'', JStr ''string'')])])]"

definition with_array :: "json list \<Rightarrow> json" where
  "with_array xs = JObj [(''tables'', JObj [(''t'', JObj [(''c'', JArr xs)])])]"

section \<open>The working directory and the effects of a command\<close>

text \<open>
  A \<^verbatim>\<open>Date\<close> is a number of milliseconds since the epoch, or the invalid date that
  \<^verbatim>\<open>new Date(x)\<close> makes of an \<^verbatim>\<open>x\<close> that is no time. Comparing with an invalid date is
  false.
\<close>

datatype js_date = Date int | InvalidDate

fun date_gt :: "js_date \<Rightarrow> js_date \<Rightarrow> bool" where
  "date_gt (Date a) (Date b) = (a > b)"
| "date_gt a b = False"

text \<open>
  What reading and parsing a file gives: \<open>Unparseable\<close> stands for every content on
  which \<^verbatim>\<open>fs.readFileSync\<close>, \<^verbatim>\<open>JSON.parse\<close> or the first property access throws.
  The last-pull record carries the date that \<^verbatim>\<open>new Date(lastPullData.time)\<close> builds.
  For the last-push record \<open>Unparseable\<close> also stands for a content without a string
  \<^verbatim>\<open>hash\<close>, on which the comparison with the current hash is false as well.
\<close>

datatype 'a stored = Unparseable | Parsed 'a

record last_pull_data =
  pull_time :: js_date
  pull_hash :: string

record last_push_data =
  push_time :: js_date
  push_hash :: string
  push_id :: "json option"

text \<open>
  The effects a command leaves behind, in their order: the answers given to the
  prompts, the requests sent to the backend with what came back, and the files written.
\<close>

datatype ConflictAction = SERVER | LOCAL | MERGE | DIFF

datatype net_error =
    ECONNABORTED
  | Status401
  | ServerErrorData json
  | OtherError string

datatype event =
    Chose ConflictAction
  | DiffShown
  | HttpGet "net_error option"
  | HttpPost "net_error option"
  | WroteSchema json
  | WroteLastPull last_pull_data
  | WroteLastPush last_push_data

text \<open>
  The working directory: the schema file with its modification time, the two sync-state
  files, and the effects so far. A file that does not exist is \<^term>\<open>None\<close>.
  \<^verbatim>\<open>fs.writeFileSync\<close> is taken to succeed.
\<close>

record world =
  schema_file :: "(json stored \<times> int) option"
  last_pull_file :: "last_pull_data stored option"
  last_push_file :: "last_push_data stored option"
  events :: "event list"

definition emit :: "event \<Rightarrow> world \<Rightarrow> world" where
  "emit e w = w\<lparr>events := events w @ [e]\<rparr>"

subsection \<open>Helpers of \<^verbatim>\<open>utils.ts\<close>\<close>

definition checkSchemaExists :: "world \<Rightarrow> bool" where
  "checkSchemaExists w = (schema_file w \<noteq> None)"

definition getSchemaLastModified :: "world \<Rightarrow> js_date" where
  "getSchemaLastModified w =
     (case schema_file w of
        Some (content, mtime) \<Rightarrow> Date mtime
      | None \<Rightarrow> Date 0)"

definition hasLocalChanges :: "world \<Rightarrow> js_date \<Rightarrow> bool" where
  "hasLocalChanges w lastPullTime = date_gt (getSchemaLastModified w) lastPullTime"

section \<open>Pull\<close>

text \<open>What the user is asked, and what the backend answers, during one run.\<close>

record server_response =
  response_schema :: "json option"
  response_data_schema :: "json option"
  response_data_updated :: bool

record pull_env =
  pull_now :: int
  pull_logged_in :: bool
  pull_reply :: "net_error + server_response"
  first_answer :: "ConflictAction option"
  second_answer :: "ConflictAction option"

datatype pull_error =
    PromptRejected
  | MergeThrew js_error
  | InvalidTimeValue
  | RequestFailed net_error

datatype pull_outcome =
    NoSchemaFile
  | SchemaUnreadable
  | ProcessExit
  | PullFailed pull_error
  | NoUpdates
  | UpToDate
  | Updated
  | KeptLocal
  | Merged
  | ReplacedWithServer

text \<open>
  \<^verbatim>\<open>getLocalSchemaInfo\<close> of the pull service. The schema file is read and parsed outside
  any handler; the last-pull file inside one, with the epoch as the default.
\<close>

definition lastPullTime_of :: "world \<Rightarrow> js_date" where
  "lastPullTime_of w =
     (case last_pull_file w of
        None \<Rightarrow> Date 0
      | Some Unparseable \<Rightarrow> Date 0
      | Some (Parsed lastPullData) \<Rightarrow> pull_time lastPullData)"

definition getLocalSchemaInfo :: "world \<Rightarrow> (json \<times> string \<times> js_date) option" where
  "getLocalSchemaInfo w =
     (case schema_file w of
        Some (Parsed schemaData, mtime) \<Rightarrow>
          Some (schemaData, getSchemaHash schemaData, lastPullTime_of w)
      | _ \<Rightarrow> None)"

text \<open>
  \<^verbatim>\<open>updateSchemaFile\<close>: the metadata of the existing file is kept when the schema to
  write has none of its own. The file then holds the new schema, and its modification
  time is the time of the write.
\<close>

definition existing_metadata :: "world \<Rightarrow> json" where
  "existing_metadata w =
     (case schema_file w of
        Some (Parsed existingSchema, mtime) \<Rightarrow>
          (if truthy_opt (field ''metadata'' existingSchema)
           then the (field ''metadata'' existingSchema) else JObj [])
      | _ \<Rightarrow> JObj [])"

definition updateSchemaFile :: "int \<Rightarrow> json \<Rightarrow> world \<Rightarrow> world" where
  "updateSchemaFile now schema w =
     (let updatedSchema =
            JObj (AList.update ''metadata''
                    (or_default (field ''metadata'' schema) (existing_metadata w))
                    (own_props schema))
      in emit (WroteSchema updatedSchema) (w\<lparr>schema_file := Some (Parsed updatedSchema, now)\<rparr>))"

definition updateLastPullTime :: "int \<Rightarrow> string \<Rightarrow> world \<Rightarrow> world" where
  "updateLastPullTime now schemaHash w =
     (let lastPullData = \<lparr>pull_time = Date now, pull_hash = schemaHash\<rparr>
      in emit (WroteLastPull lastPullData) (w\<lparr>last_pull_file := Some (Parsed lastPullData)\<rparr>))"

definition resolveConflict ::
  "ConflictAction \<Rightarrow> int \<Rightarrow> json \<Rightarrow> json \<Rightarrow> world \<Rightarrow> (pull_error + pull_outcome) \<times> world" where
  "resolveConflict action now localSchema serverSchema w =
     (if action = LOCAL then (Inr KeptLocal, w)
      else if action = MERGE then
        (case mergeSchemas localSchema serverSchema of
           Inl e \<Rightarrow> (Inl (MergeThrew e), w)
         | Inr mergedSchema \<Rightarrow> (Inr Merged, updateSchemaFile now mergedSchema w))
      else (Inr ReplacedWithServer, updateSchemaFile now serverSchema w))"

definition handleDiffView ::
  "pull_env \<Rightarrow> json \<Rightarrow> json \<Rightarrow> world \<Rightarrow> (pull_error + pull_outcome) \<times> world" where
  "handleDiffView env localSchema serverSchema w =
     (case second_answer env of
        None \<Rightarrow> (Inl PromptRejected, emit DiffShown w)
      | Some secondAction \<Rightarrow>
          resolveConflict secondAction (pull_now env) localSchema serverSchema
            (emit (Chose secondAction) (emit DiffShown w)))"

definition handleSchemaConflicts ::
  "pull_env \<Rightarrow> json \<Rightarrow> json \<Rightarrow> world \<Rightarrow> (pull_error + pull_outcome) \<times> world" where
  "handleSchemaConflicts env localSchema serverSchema w =
     (case first_answer env of
        None \<Rightarrow> (Inl PromptRejected, w)
      | Some action \<Rightarrow>
          if action = DIFF
          then handleDiffView env localSchema serverSchema (emit (Chose action) w)
          else resolveConflict action (pull_now env) localSchema serverSchema
                 (emit (Chose action) w))"

text \<open>
  \<^verbatim>\<open>processServerResponse\<close>. The server schema is
  \<^verbatim>\<open>response.data.schema || response.data.data?.schema\<close>. The last statement, which
  writes the last-pull record, is reached unless the function returned early or the
  conflict handling threw.
\<close>

definition serverSchema_of :: "server_response \<Rightarrow> json option" where
  "serverSchema_of response =
     (if truthy_opt (response_schema response) then response_schema response
      else response_data_schema response)"

definition processServerResponse ::
  "pull_env \<Rightarrow> server_response \<Rightarrow> json \<Rightarrow> string \<Rightarrow> js_date \<Rightarrow> world
     \<Rightarrow> (pull_error + pull_outcome) \<times> world" where
  "processServerResponse env response schemaData localSchemaHash lastPullTime w =
     (if \<not> truthy_opt (serverSchema_of response) then (Inr NoUpdates, w)
      else
        (let serverSchema = the (serverSchema_of response);
             serverSchemaHash = getSchemaHash serverSchema;
             hasChanges = (serverSchemaHash \<noteq> localSchemaHash);
             hasLocalMods = hasLocalChanges w lastPullTime;
             isUpdated = response_data_updated response;
             branch =
               (if (isUpdated \<or> hasChanges) \<and> hasLocalMods
                then handleSchemaConflicts env schemaData serverSchema w
                else if isUpdated \<or> hasChanges
                then (Inr Updated, updateSchemaFile (pull_now env) serverSchema w)
                else (Inr UpToDate, w))
         in case branch of
              (Inl e, w') \<Rightarrow> (Inl e, w')
            | (Inr outcome, w') \<Rightarrow>
                (Inr outcome,
                 updateLastPullTime (pull_now env)
                   (if serverSchemaHash \<noteq> [] then serverSchemaHash else localSchemaHash) w')))"

text \<open>
  \<^verbatim>\<open>fetchServerSchema\<close> prints the last pull time with \<^verbatim>\<open>toISOString\<close>, which throws on
  an invalid date, and sends the request.
\<close>

definition fetchServerSchema :: "pull_env \<Rightarrow> js_date \<Rightarrow> world \<Rightarrow> (pull_error + server_response) \<times> world" where
  "fetchServerSchema env lastPullTime w =
     (if lastPullTime = InvalidDate then (Inl InvalidTimeValue, w)
      else
        (case pull_reply env of
           Inl e \<Rightarrow> (Inl (RequestFailed e), emit (HttpGet (Some e)) w)
         | Inr response \<Rightarrow> (Inr response, emit (HttpGet None) w)))"

text \<open>
  The command \<^verbatim>\<open>pull\<close>. \<^verbatim>\<open>requireLogin\<close> ends the process when a credential is missing;
  \<^verbatim>\<open>getProjectInfos\<close> always returns an object. An error of the request or of the
  processing is caught and printed by \<^verbatim>\<open>handlePullError\<close>; the world is then as the
  failed step left it.
\<close>

definition pull :: "pull_env \<Rightarrow> world \<Rightarrow> pull_outcome \<times> world" where
  "pull env w =
     (if \<not> checkSchemaExists w then (NoSchemaFile, w)
      else
        (case getLocalSchemaInfo w of
           None \<Rightarrow> (SchemaUnreadable, w)
         | Some (schemaData, localSchemaHash, lastPullTime) \<Rightarrow>
             if \<not> pull_logged_in env then (ProcessExit, w)
             else
               (case fetchServerSchema env lastPullTime w of
                  (Inl e, w1) \<Rightarrow> (PullFailed e, w1)
                | (Inr response, w1) \<Rightarrow>
                    (case processServerResponse env response schemaData localSchemaHash
                            lastPullTime w1 of
                       (Inl e, w2) \<Rightarrow> (PullFailed e, w2)
                     | (Inr outcome, w2) \<Rightarrow> (outcome, w2)))))"

text \<open>
  The choice that resolves a conflict: the first answer, or the second one when the
  first was to view the differences.
\<close>

definition final_choice :: "pull_env \<Rightarrow> ConflictAction option" where
  "final_choice env =
     (case first_answer env of
        Some DIFF \<Rightarrow> second_answer env
      | a \<Rightarrow> a)"

text \<open>
  A sequence of effects in which every write of the schema file comes directly after an
  answer to a prompt. The flag tells whether the effect before was such an answer.
\<close>

fun choice_precedes_writes :: "bool \<Rightarrow> event list \<Rightarrow> bool" where
  "choice_precedes_writes c [] = True"
| "choice_precedes_writes c (Chose a # es) = choice_precedes_writes True es"
| "choice_precedes_writes c (WroteSchema d # es) = (c \<and> choice_precedes_writes False es)"
| "choice_precedes_writes c (e # es) = choice_precedes_writes False es"

section \<open>Push\<close>

record push_env =
  push_now :: int
  push_logged_in :: bool
  push_reply :: "net_error + nat"

datatype push_outcome =
    PushNoSchemaFile
  | PushProcessExit
  | PushFailed "net_error option"
  | Unchanged
  | Pushed

text \<open>
  \<^verbatim>\<open>hasSchemaChanged\<close>: with \<^verbatim>\<open>force\<close> the file is not read; a missing or unreadable
  last-push file counts as a change.
\<close>

definition hasSchemaChanged :: "world \<Rightarrow> string \<Rightarrow> bool \<Rightarrow> bool" where
  "hasSchemaChanged w schemaHash force =
     (if force then True
      else
        (case last_push_file w of
           Some (Parsed lastPushData) \<Rightarrow>
             if push_hash lastPushData = schemaHash then False else True
         | Some Unparseable \<Rightarrow> True
         | None \<Rightarrow> True))"

text \<open>
  \<^verbatim>\<open>getProjectInfos\<close> reads \<^verbatim>\<open>schema?.metadata?.project\<close> from the schema file and
  returns its \<^verbatim>\<open>id\<close>, with the empty string as the default.
\<close>

definition project_id :: "json \<Rightarrow> json option" where
  "project_id schema =
     (case field ''metadata'' schema of
        None \<Rightarrow> Some (JStr [])
      | Some metadata \<Rightarrow>
          if truthy_opt (field ''project'' metadata)
          then field ''id'' (the (field ''project'' metadata))
          else Some (JStr []))"

definition updateLastPushFile :: "int \<Rightarrow> string \<Rightarrow> json option \<Rightarrow> world \<Rightarrow> world" where
  "updateLastPushFile now schemaHash projectId w =
     (let lastPushData = \<lparr>push_time = Date now, push_hash = schemaHash, push_id = projectId\<rparr>
      in emit (WroteLastPush lastPushData) (w\<lparr>last_push_file := Some (Parsed lastPushData)\<rparr>))"

text \<open>
  The command \<^verbatim>\<open>push\<close>. Everything after the check of the schema file runs inside one
  handler: a schema file that cannot be parsed or holds \<^verbatim>\<open>null\<close>, whose \<^verbatim>\<open>tables\<close>
  cannot be read, and a request that fails all end in \<^verbatim>\<open>handlePushError\<close>, which
  prints. \<^verbatim>\<open>axios.post\<close> resolves on a status of the \<open>2xx\<close> range and rejects
  otherwise.
\<close>

definition push :: "bool \<Rightarrow> push_env \<Rightarrow> world \<Rightarrow> push_outcome \<times> world" where
  "push force env w =
     (if \<not> checkSchemaExists w then (PushNoSchemaFile, w)
      else
        (case schema_file w of
           Some (Parsed schemaData, mtime) \<Rightarrow>
             if schemaData = JNull then (PushFailed None, w)
             else
             (let schemaHash = getSchemaHash schemaData;
                  schemaChanged = hasSchemaChanged w schemaHash force
              in if \<not> schemaChanged then (Unchanged, w)
                 else if \<not> push_logged_in env then (PushProcessExit, w)
                 else
                   (case push_reply env of
                      Inl e \<Rightarrow> (PushFailed (Some e), emit (HttpPost (Some e)) w)
                    | Inr status \<Rightarrow>
                        (Pushed,
                         updateLastPushFile (push_now env) schemaHash (project_id schemaData)
                           (emit (HttpPost None) w))))
         | _ \<Rightarrow> (PushFailed None, w)))"

text \<open>The requests of a run that the backend answered with success.\<close>

definition transmissions :: "event list \<Rightarrow> nat" where
  "transmissions es = length (filter (\<lambda>e. e = HttpPost None) es)"

definition network_calls :: "event list \<Rightarrow> nat" where
  "network_calls es = length (filter (\<lambda>e. case e of HttpPost r \<Rightarrow> True | HttpGet r \<Rightarrow> True | _ \<Rightarrow> False) es)"

section \<open>Inference with an AI provider, and the scan command\<close>

text \<open>
  The text a provider returns, as \<^verbatim>\<open>JSON.parse\<close> sees it: the value it parses to, or a
  text that is not JSON, on which \<^verbatim>\<open>JSON.parse\<close> throws.
\<close>

datatype response_text = Json json | NotJson string

text \<open>An exception as the handler of \<^verbatim>\<open>analyzeWithAI\<close> inspects it.\<close>

record exn =
  exn_name :: string
  exn_code :: "string option"
  exn_message :: "string option"

text \<open>
  One run up to the reply of the provider: no key was found, the request threw (a
  timeout aborts it with an \<^verbatim>\<open>AbortError\<close>), or the provider replied.
\<close>

datatype ai_run = NoApiKey | ProviderThrew exn | ProviderReplied response_text

datatype ai_error =
    NoApiKeyProvided
  | TimedOut
  | ProjectTooLarge
  | RateLimitExceeded
  | InvalidApiKey
  | AnalysisFailed string

definition parse_failure_message :: string where
  "parse_failure_message =
     ''Failed to parse AI response as JSON. The AI may have returned invalid JSON format.''"

definition message_includes :: "exn \<Rightarrow> string \<Rightarrow> bool" where
  "message_includes error p =
     (case exn_message error of None \<Rightarrow> False | Some m \<Rightarrow> includes_str m p)"

text \<open>The handler at the end of \<^verbatim>\<open>analyzeWithAI\<close>: every exception is thrown anew.\<close>

definition rethrow :: "exn \<Rightarrow> ai_error" where
  "rethrow error =
     (if exn_name error = ''AbortError'' then TimedOut
      else if exn_code error = Some ''context_length_exceeded''
              \<or> message_includes error ''maximum context length'' then ProjectTooLarge
      else if exn_code error = Some ''rate_limit_exceeded'' then RateLimitExceeded
      else if exn_code error = Some ''invalid_api_key''
              \<or> message_includes error ''invalid api key'' then InvalidApiKey
      else AnalysisFailed (''AI analysis failed: '' @
             (case exn_message error of
                None \<Rightarrow> ''Unknown error''
              | Some m \<Rightarrow> if m = [] then ''Unknown error'' else m)))"

text \<open>
  The statements after the reply. A reply that is not JSON throws the parse error. On
  \<^verbatim>\<open>null\<close> reading \<^verbatim>\<open>tables\<close> throws, and on a number, a string or a boolean the
  assignment of \<^verbatim>\<open>tables\<close> throws in strict mode; both are type errors.
\<close>

definition after_reply :: "response_text \<Rightarrow> exn + json" where
  "after_reply text =
     (case text of
        NotJson t \<Rightarrow>
          Inl \<lparr>exn_name = ''Error'', exn_code = None, exn_message = Some parse_failure_message\<rparr>
      | Json schema \<Rightarrow>
          if schema = JNull then
            Inl \<lparr>exn_name = ''TypeError'', exn_code = None,
                 exn_message = Some ''Cannot read properties of null''\<rparr>
          else if \<not> typeof_object schema then
            (if truthy_opt (field ''tables'' schema) then Inr schema
             else Inl \<lparr>exn_name = ''TypeError'', exn_code = None,
                       exn_message = Some ''Cannot create property''\<rparr>)
          else if \<not> truthy_opt (field ''tables'' schema)
          then Inr (set_field ''tables'' (JObj []) schema)
          else Inr schema)"

definition analyzeWithAI :: "ai_run \<Rightarrow> ai_error + json" where
  "analyzeWithAI run =
     (case run of
        NoApiKey \<Rightarrow> Inl NoApiKeyProvided
      | ProviderThrew error \<Rightarrow> Inl (rethrow error)
      | ProviderReplied text \<Rightarrow>
          (case after_reply text of
             Inl error \<Rightarrow> Inl (rethrow error)
           | Inr schema \<Rightarrow> Inr schema))"

text \<open>
  \<^verbatim>\<open>processAndFilterSchema\<close> writes the schema file once both passes have returned; an
  exception of a pass is caught and nothing is written.
\<close>

definition processAndFilterSchema :: "int \<Rightarrow> json \<Rightarrow> world \<Rightarrow> world" where
  "processAndFilterSchema now schema w =
     (case sanitize_then_filter schema of
        Inl e \<Rightarrow> w
      | Inr filteredSchema \<Rightarrow>
          emit (WroteSchema filteredSchema) (w\<lparr>schema_file := Some (Parsed filteredSchema, now)\<rparr>))"

text \<open>
  The command \<^verbatim>\<open>scan\<close>, as far as the schema file is concerned; the client file it
  generates afterwards is another file. The check for the client library at the start
  of the command is taken to return.
\<close>

record scan_env =
  scan_now :: int
  path_valid :: bool
  useAI :: bool
  ai_result :: ai_run
  scanProject_result :: "js_error + json"

datatype scan_outcome =
    InvalidPath
  | AIAnalysisFailed ai_error
  | NotAValidSchema
  | ProjectScanFailed js_error
  | Processed

definition scan :: "scan_env \<Rightarrow> world \<Rightarrow> scan_outcome \<times> world" where
  "scan env w =
     (if \<not> path_valid env then (InvalidPath, w)
      else if useAI env then
        (case analyzeWithAI (ai_result env) of
           Inl error \<Rightarrow> (AIAnalysisFailed error, w)
         | Inr schema \<Rightarrow>
             if \<not> truthy schema \<or> \<not> typeof_object schema then (NotAValidSchema, w)
             else (Processed, processAndFilterSchema (scan_now env) schema w))
      else
        (case scanProject_result env of
           Inl error \<Rightarrow> (ProjectScanFailed error, w)
         | Inr schema \<Rightarrow> (Processed, processAndFilterSchema (scan_now env) schema w)))"

text \<open>A schema, two working directories and two runs of push used below.\<close>

definition schema5 :: json where
  "schema5 = JObj
     [(''tables'', JObj [(''users'', JObj [(''id'', JStr ''string''), (''name'', JStr ''string'')])]),
      (''version'', JStr ''1'')]"

definition world5 :: world where
  "world5 = \<lparr>schema_file = Some (Parsed schema5, 1700000000000),
             last_pull_file = None,
             last_push_file = Some (Parsed \<lparr>push_time = Date 1600000000000,
                                             push_hash = ''h0qy4n'', push_id = Some (JStr [])\<rparr>),
             events = []\<rparr>"

definition world6 :: world where
  "world6 = \<lparr>schema_file = Some (Parsed schema5, 1700000000000),
             last_pull_file = None,
             last_push_file = None,
             events = []\<rparr>"

definition env_ok :: push_env where
  "env_ok = \<lparr>push_now = 1700000005000, push_logged_in = True, push_reply = Inr 200\<rparr>"

definition env_timeout :: push_env where
  "env_timeout = \<lparr>push_now = 1700000005000, push_logged_in = True, push_reply = Inl ECONNABORTED\<rparr>"

text \<open>A server schema, responses, runs of pull and a working directory used below.\<close>

definition server_schema :: json where
  "server_schema = JObj
     [(''tables'', JObj [(''users'', JObj [(''id'', JStr ''string''), (''email'', JStr ''string'')])]),
      (''version'', JStr ''2'')]"

definition response_changed :: server_response where
  "response_changed = \<lparr>response_schema = Some server_schema, response_data_schema = None,
                         response_data_updated = True\<rparr>"


definition env_keep_local :: pull_env where
  "env_keep_local = \<lparr>pull_now = 1700000005000, pull_logged_in = True,
                       pull_reply = Inr response_changed,
                       first_answer = Some DIFF, second_answer = Some LOCAL\<rparr>"


definition env_no_answer :: pull_env where
  "env_no_answer = \<lparr>pull_now = 1700000005000, pull_logged_in = True,
                      pull_reply = Inr response_changed,
                      first_answer = None, second_answer = None\<rparr>"

definition world7 :: world where
  "world7 = \<lparr>schema_file = Some (Parsed schema5, 1700000000000),
             last_pull_file = Some (Parsed \<lparr>pull_time = Date 1690000000000, pull_hash = ''h0qy4n''\<rparr>),
             last_push_file = None,
             events = []\<rparr>"

text \<open>A scan with the AI option whose provider answers with a text that is not JSON.\<close>

definition env9 :: scan_env where
  "env9 = \<lparr>scan_now = 1700000000000, path_valid = True, useAI = True,
           ai_result = ProviderReplied (NotJson ''not json''),
           scanProject_result = Inr (JObj [(''tables'', JObj [])])\<rparr>"

section \<open>Properties of properties and digits\<close>

lemma index_props_map: "index_props (map f xs) = map (\<lambda>(k, v). (k, f v)) (index_props xs)"
  by (simp add: index_props_def zip_map2)

lemma own_props_map_props:
  "typeof_object v \<Longrightarrow> truthy v \<Longrightarrow>
     own_props (map_props f v) = map (\<lambda>(k, x). (k, f x)) (own_props v)"
  by (cases v) (simp_all add: index_props_map)

lemma map_of_update_same: "map_of (AList.update k v al) k = Some v"
  by (simp add: update_conv')

lemma map_of_update_other: "k' \<noteq> k \<Longrightarrow> map_of (AList.update k v al) k' = map_of al k'"
  by (simp add: update_conv')

lemma update_append:
  "k \<notin> fst ` set al \<Longrightarrow> AList.update k v al = al @ [(k, v)]"
  by (induction al) auto

lemma field_set_field_same: "field k (set_field k x v) = Some x"
  by (simp add: set_field_def map_of_update_same)

lemma field_set_field_other:
  "k' \<noteq> k \<Longrightarrow> field k' (set_field k x (JObj kvs)) = field k' (JObj kvs)"
  by (simp add: set_field_def map_of_update_other)

lemma radix_digits_not_Nil: "radix_digits b n \<noteq> []"
  by (subst radix_digits.simps) simp

lemma digit_char_decimal: "d < 10 \<Longrightarrow> digit_char d \<in> set ''0123456789''"
proof -
  have "list_all (\<lambda>d. digit_char d \<in> set ''0123456789'') [0..<10]" by code_simp
  then have "\<forall>d \<in> set [0..<10]. digit_char d \<in> set ''0123456789''"
    unfolding list_all_iff .
  moreover assume "d < 10"
  ultimately show ?thesis by simp
qed

lemma radix_digits_decimal: "set (radix_digits 10 n) \<subseteq> set ''0123456789''"
proof (induction "10 :: nat" n rule: radix_digits.induct)
  case (1 n)
  show ?case
  proof (cases "n < 10")
    case True
    then show ?thesis
      using digit_char_decimal [of n] by (subst radix_digits.simps) simp
  next
    case False
    then have IH: "set (radix_digits 10 (n div 10)) \<subseteq> set ''0123456789''"
      using 1 by simp
    have "n mod 10 < 10" by simp
    from digit_char_decimal [OF this] IH False show ?thesis
      by (subst radix_digits.simps) simp
  qed
qed

lemma index_props_key_digits:
  assumes "(k, v) \<in> set (index_props xs)"
  shows "set k \<subseteq> set ''0123456789''"
proof -
  from assms have "k \<in> set (map (radix_digits 10) [0..<length xs])"
    unfolding index_props_def by (rule set_zip_leftD)
  then show ?thesis using radix_digits_decimal by auto
qed

lemma map_of_index_props_named:
  assumes "\<not> set k \<subseteq> set ''0123456789''"
  shows "map_of (index_props xs) k = None"
proof (cases "map_of (index_props xs) k")
  case (Some v)
  then have "(k, v) \<in> set (index_props xs)" by (rule map_of_SomeD)
  then have "set k \<subseteq> set ''0123456789''" by (rule index_props_key_digits)
  with assms show ?thesis by contradiction
qed simp

section \<open>Properties of the sanitizer and the filter\<close>

lemma sanitize_column_scalar:
  "other_scalar v \<Longrightarrow> sanitize_column v = JStr (js_String v)"
  by (cases v) (simp_all add: sanitize_column_def)

text \<open>
  On a string and on a descriptor the sanitizer keeps a column that is in the vocabulary
  and brings any other into it: the string becomes \<^verbatim>\<open>string\<close>, the descriptor gets
  the \<^verbatim>\<open>type\<close> \<^verbatim>\<open>string\<close>.
\<close>

lemma sanitize_column_string:
  "sanitize_column (JStr s) = (if in_vocabulary (JStr s) then JStr s else JStr ''string'')"
  by (auto simp add: sanitize_column_def Let_def list_ex_iff)

lemma sanitize_column_descriptor:
  "sanitize_column (JObj kvs)
     = (if in_vocabulary (JObj kvs) then JObj kvs
        else set_field ''type'' (JStr ''string'') (JObj kvs))"
  by (auto simp add: sanitize_column_def split: option.splits json.splits)

lemma sanitize_column_array:
  "sanitize_column (JArr xs) = JObj (index_props xs @ [(''type'', JStr ''string'')])"
proof -
  have "''type'' \<notin> fst ` set (index_props xs)"
  proof
    assume "''type'' \<in> fst ` set (index_props xs)"
    then obtain v where "(''type'', v) \<in> set (index_props xs)" by auto
    then have "set ''type'' \<subseteq> set ''0123456789''" by (rule index_props_key_digits)
    then show False by simp
  qed
  then show ?thesis
    by (simp add: sanitize_column_def set_field_def update_append map_of_index_props_named)
qed

text \<open>
  The string form of \<^verbatim>\<open>null\<close>, of a boolean and of a number is no column type: a
  number starts with a digit or a minus sign, a column type with a letter.
\<close>

lemma vocabulary_first_letter:
  assumes "in_vocabulary (JStr s)"
  shows "\<exists>c rest. s = c # rest \<and> lower_char c \<in> set ''esnbdao''"
proof -
  from assms have "\<exists>c rest. map lower_char s = c # rest \<and> c \<in> set ''esnbdao''"
    by (auto simp add: Let_def toLowerCase_def startsWith_def VALID_COLUMN_TYPES_def prefix_def)
  then show ?thesis by (cases s) auto
qed

lemma not_letter: "c \<in> set ''0123456789-'' \<Longrightarrow> lower_char c \<notin> set ''esnbdao''"
proof -
  have "list_all (\<lambda>c. lower_char c \<notin> set ''esnbdao'') ''0123456789-''" by code_simp
  then have "\<forall>c \<in> set ''0123456789-''. lower_char c \<notin> set ''esnbdao''"
    unfolding list_all_iff .
  moreover assume "c \<in> set ''0123456789-''"
  ultimately show ?thesis by blast
qed

lemma number_toString_first:
  "\<exists>c rest. number_toString n = c # rest \<and> c \<in> set ''0123456789-''"
proof (cases "n < 0")
  case True
  then show ?thesis by (simp add: number_toString_def)
next
  case False
  obtain c rest where r: "radix_digits 10 (nat n) = c # rest"
    using radix_digits_not_Nil [of 10 "nat n"] by (cases "radix_digits 10 (nat n)") auto
  with radix_digits_decimal [of "nat n"] have "c \<in> set ''0123456789''" by auto
  with r False show ?thesis by (auto simp add: number_toString_def)
qed

lemma scalar_string_not_in_vocabulary:
  assumes "other_scalar v"
  shows "\<not> in_vocabulary (JStr (js_String v))"
proof (cases v)
  case JNull
  have "\<not> in_vocabulary (JStr ''null'')" by code_simp
  with JNull show ?thesis by simp
next
  case (JBool b)
  have "\<not> in_vocabulary (JStr ''true'')" "\<not> in_vocabulary (JStr ''false'')" by code_simp+
  with JBool show ?thesis by simp
next
  case (JNum n)
  show ?thesis
  proof
    assume "in_vocabulary (JStr (js_String v))"
    from vocabulary_first_letter [OF this] obtain c rest
      where 1: "js_String v = c # rest" "lower_char c \<in> set ''esnbdao''" by blast
    from number_toString_first [of n] obtain c' rest'
      where 2: "number_toString n = c' # rest'" "c' \<in> set ''0123456789-''" by blast
    from 1 2 JNum have "c = c'" by simp
    with 1(2) not_letter [OF 2(2)] show False by simp
  qed
qed (use assms in simp_all)

text \<open>
  Claim C1. After the sanitizer every column should be in the column type vocabulary,
  an array having become the literal \<^verbatim>\<open>array\<close>. The code does not achieve this. In a
  table beside a string that is no type, which becomes \<^verbatim>\<open>string\<close>, and a valid type,
  which is kept, a column that is \<^verbatim>\<open>null\<close>, a boolean or a number becomes its string
  form, which is not in the vocabulary, where the branch for strings writes
  \<^verbatim>\<open>string\<close>. An array column never reaches the branch that writes \<^verbatim>\<open>array\<close>:
  \<^verbatim>\<open>typeof\<close> of an array is \<^verbatim>\<open>object\<close>, so the branch for descriptors takes it
  first and spreads its indices into a descriptor of \<^verbatim>\<open>type\<close> \<^verbatim>\<open>string\<close>.
\<close>

theorem sanitize_closure_violated:
  assumes "other_scalar v" "safe_number v"
  shows "sanitizeSchema (users_document v xs)
         = Inr (JObj [(''tables'', JObj [(''users'',
              JObj [(''name'', JStr ''string''), (''score'', JStr ''number''),
                    (''age'', JStr (js_String v)),
                    (''tags'', JObj (index_props xs @ [(''type'', JStr ''string'')]))])])])
       \<and> \<not> in_vocabulary (JStr (js_String v))
       \<and> JObj (index_props xs @ [(''type'', JStr ''string'')]) \<noteq> JStr ''array''"
proof -
  have n: "sanitize_column (JStr ''varchar'') = JStr ''string''" by code_simp
  have s: "sanitize_column (JStr ''number'') = JStr ''number''" by code_simp
  from assms(1) have a: "sanitize_column v = JStr (js_String v)"
    by (rule sanitize_column_scalar)
  have "sanitizeSchema (users_document v xs)
         = Inr (JObj [(''tables'', JObj [(''users'',
              JObj [(''name'', JStr ''string''), (''score'', JStr ''number''),
                    (''age'', JStr (js_String v)),
                    (''tags'', JObj (index_props xs @ [(''type'', JStr ''string'')]))])])])"
    by (simp add: users_document_def sanitizeSchema_def truthy_opt_def sanitize_table_def
        set_field_def n s a sanitize_column_array)
  moreover from assms(1) have "\<not> in_vocabulary (JStr (js_String v))"
    by (rule scalar_string_not_in_vocabulary)
  ultimately show ?thesis by simp
qed

text \<open>
  The theorem at the number \<open>42\<close> and the array \<^verbatim>\<open>["x"]\<close>: the sanitized table holds
  the string \<^verbatim>\<open>42\<close> and a descriptor with the property \<^verbatim>\<open>0\<close>.
\<close>

theorem sanitize_closure_violated_witness:
  "sanitizeSchema (JObj [(''tables'', JObj [(''users'',
      JObj [(''name'', JStr ''varchar''), (''score'', JStr ''number''),
            (''age'', JNum 42), (''tags'', JArr [JStr ''x''])])])])
   = Inr (JObj [(''tables'', JObj [(''users'',
      JObj [(''name'', JStr ''string''), (''score'', JStr ''number''),
            (''age'', JStr ''42''),
            (''tags'', JObj [(''0'', JStr ''x''), (''type'', JStr ''string'')])])])])
   \<and> \<not> in_vocabulary (JStr ''42'')
   \<and> JObj [(''0'', JStr ''x''), (''type'', JStr ''string'')] \<noteq> JStr ''array''"
proof -
  have o: "other_scalar (JNum 42)" by simp
  have f: "safe_number (JNum 42)" by (simp add: safe_number_def)
  have d: "js_String (JNum 42) = ''42''" by code_simp
  have i: "index_props [JStr ''x''] = [(''0'', JStr ''x'')]" by code_simp
  from sanitize_closure_violated [OF o f, of "[JStr ''x'']"] show ?thesis
    unfolding users_document_def d i by simp
qed

lemma filterSchema_shape:
  assumes "field ''tables'' S = Some T" "truthy T" "typeof_object T"
  shows "filterSchema S = Inr (JObj
        [(''tables'', JObj (filter keeps_table (own_props T))),
         (''version'', or_default (field ''version'' S) (JStr ''1.0.0'')),
         (''metadata'', or_default (field ''metadata'' S) (JObj []))])"
proof -
  from assms(1) obtain kvs where "S = JObj kvs" by (cases S) simp_all
  with assms show ?thesis by (simp add: filterSchema_def truthy_opt_def)
qed

lemma sanitize_tables_object:
  assumes "truthy T" "typeof_object T"
  shows "\<exists>T'. sanitize_tables T = Inr T' \<and> truthy T' \<and> typeof_object T'"
  using assms by (cases T) simp_all

lemma field_set_tables:
  assumes "k \<noteq> ''tables''" "\<not> set k \<subseteq> set ''0123456789''"
  shows "field k (set_field ''tables'' x D) = field k D"
proof (cases D)
  case (JObj kvs)
  from assms(1) show ?thesis unfolding JObj by (rule field_set_field_other)
next
  case (JArr xs)
  from assms show ?thesis
    unfolding JArr by (simp add: set_field_def map_of_update_other map_of_index_props_named)
next
  case (JStr s)
  from assms show ?thesis
    unfolding JStr by (simp add: set_field_def map_of_update_other map_of_index_props_named)
qed (use assms in \<open>simp_all add: set_field_def\<close>)

lemma sanitizeSchema_cases:
  assumes "tables_usable D"
  shows "(\<exists>T'. sanitizeSchema D = Inr (set_field ''tables'' T' D) \<and> truthy T' \<and> typeof_object T')
        \<or> sanitizeSchema D = Inr (JObj [(''tables'', JObj [])]) \<and> (\<forall>k. field k D = None)"
proof (cases "\<not> truthy D \<or> \<not> typeof_object D")
  case True
  then have "\<forall>k. field k D = None" by (cases D) auto
  with True show ?thesis by (simp add: sanitizeSchema_def)
next
  case obj: False
  show ?thesis
  proof (cases "truthy_opt (field ''tables'' D)")
    case False
    with obj have "sanitizeSchema D = Inr (set_field ''tables'' (JObj []) D)"
      by (simp add: sanitizeSchema_def)
    then show ?thesis by auto
  next
    case True
    then obtain T where T: "field ''tables'' D = Some T" "truthy T"
      by (auto simp add: truthy_opt_def split: option.splits)
    with assms have "typeof_object T" by (simp add: tables_usable_def)
    from sanitize_tables_object [OF T(2) this] obtain T'
      where "sanitize_tables T = Inr T'" "truthy T'" "typeof_object T'" by blast
    with obj True T show ?thesis by (auto simp add: sanitizeSchema_def)
  qed
qed

text \<open>
  Claim C7, as amended. For every document whose \<^verbatim>\<open>tables\<close> property is usable, the
  sanitizer followed by the filter returns an object with exactly the properties
  \<^verbatim>\<open>tables\<close>, \<^verbatim>\<open>version\<close> and \<^verbatim>\<open>metadata\<close>. Its \<^verbatim>\<open>metadata\<close> is the input's
  \<^verbatim>\<open>metadata\<close> when that is truthy (every mapping is) and the empty mapping otherwise;
  its \<^verbatim>\<open>version\<close> is the input's \<^verbatim>\<open>version\<close> when that is truthy (every non-empty
  string is) and \<^verbatim>\<open>1.0.0\<close> otherwise.
\<close>

theorem sanitize_filter_frame:
  assumes "tables_usable D"
  shows "\<exists>tabs. sanitize_then_filter D = Inr (JObj
        [(''tables'', JObj tabs),
         (''version'', or_default (field ''version'' D) (JStr ''1.0.0'')),
         (''metadata'', or_default (field ''metadata'' D) (JObj []))])"
proof -
  have v: "''version'' \<noteq> ''tables''" "\<not> set ''version'' \<subseteq> set ''0123456789''"
    and m: "''metadata'' \<noteq> ''tables''" "\<not> set ''metadata'' \<subseteq> set ''0123456789''"
    by simp_all
  from sanitizeSchema_cases [OF assms] show ?thesis
  proof (elim disjE exE conjE)
    fix T'
    assume S: "sanitizeSchema D = Inr (set_field ''tables'' T' D)"
      and T': "truthy T'" "typeof_object T'"
    have "field ''tables'' (set_field ''tables'' T' D) = Some T'"
      by (rule field_set_field_same)
    from filterSchema_shape [OF this T'] S show ?thesis
      by (simp add: sanitize_then_filter_def field_set_tables [OF v] field_set_tables [OF m])
  next
    assume S: "sanitizeSchema D = Inr (JObj [(''tables'', JObj [])])"
      and none: "\<forall>k. field k D = None"
    have "field ''tables'' (JObj [(''tables'', JObj [])]) = Some (JObj [])" by simp
    from filterSchema_shape [OF this] S none show ?thesis
      by (simp add: sanitize_then_filter_def)
  qed
qed

text \<open>The theorem at a document with project metadata and a version.\<close>

theorem sanitize_filter_frame_witness:
  "tables_usable doc2 \<and>
   sanitize_then_filter doc2 = Inr (JObj
        [(''tables'', JObj [(''orders'', JObj [(''id'', JStr ''string'')])]),
         (''version'', JStr ''2.1.0''),
         (''metadata'', JObj [(''project'', JObj [(''id'', JStr ''p1''), (''name'', JStr ''shop'')])])])"
proof -
  have u: "tables_usable doc2" unfolding doc2_def by code_simp
  have e: "sanitize_then_filter doc2 = Inr (JObj
        [(''tables'', JObj [(''orders'', JObj [(''id'', JStr ''string'')])]),
         (''version'', JStr ''2.1.0''),
         (''metadata'', JObj [(''project'', JObj [(''id'', JStr ''p1''), (''name'', JStr ''shop'')])])])"
    unfolding doc2_def by code_simp
  from sanitize_filter_frame [OF u] e u show ?thesis by simp
qed

text \<open>
  Claim C7 as stated fails: a version that is present but empty is replaced by
  \<^verbatim>\<open>1.0.0\<close>, and a further top-level property of the input is not in the result.
\<close>

theorem sanitize_filter_frame_counterexample:
  "field ''version'' doc3 = Some (JStr [])
   \<and> field ''owner'' doc3 = Some (JStr ''me'')
   \<and> sanitize_then_filter doc3
     = Inr (JObj [(''tables'', JObj []), (''version'', JStr ''1.0.0''), (''metadata'', JObj [])])"
  unfolding doc3_def by code_simp

section \<open>Properties of the merge\<close>

lemma map_of_assign_props:
  "distinct (map fst ps) \<Longrightarrow>
     map_of (assign_props acc ps) k = (case map_of ps k of Some v \<Rightarrow> Some v | None \<Rightarrow> map_of acc k)"
proof (induction ps arbitrary: acc)
  case Nil
  then show ?case by (simp add: assign_props_def)
next
  case (Cons p ps)
  obtain k' v' where p: "p = (k', v')" by (cases p)
  from Cons.prems p have d: "distinct (map fst ps)" and n: "k' \<notin> fst ` set ps" by auto
  have "assign_props acc (p # ps) = assign_props (AList.update k' v' acc) ps"
    by (simp add: assign_props_def p)
  then have "map_of (assign_props acc (p # ps)) k
      = (case map_of ps k of Some v \<Rightarrow> Some v | None \<Rightarrow> map_of (AList.update k' v' acc) k)"
    using Cons.IH [OF d] by simp
  also have "\<dots> = (case map_of (p # ps) k of Some v \<Rightarrow> Some v | None \<Rightarrow> map_of acc k)"
  proof (cases "k = k'")
    case True
    with n have "map_of ps k = None" by (simp add: map_of_eq_None_iff)
    with True p show ?thesis by (simp add: update_conv')
  next
    case False
    with p show ?thesis by (simp add: update_conv' split: option.splits)
  qed
  finally show ?case .
qed

text \<open>
  Claim C8. For every pair of schemas on which the merge returns, the \<^verbatim>\<open>tables\<close> of the
  merged schema hold, under every table name, the server's table when the server has
  one of that name (whether or not the local schema has one too), and the local table
  otherwise; a name that neither has is absent. The table is taken whole: the columns
  of a table present on both sides are the server's columns, not a union.
\<close>

theorem merge_tables_shallow:
  assumes "mergeSchemas localSchema serverSchema = Inr merged"
    and "distinct (map fst (spread_props (field ''tables'' localSchema)))"
    and "distinct (map fst (spread_props (field ''tables'' serverSchema)))"
  shows "\<exists>mt. field ''tables'' merged = Some (JObj mt) \<and>
           (\<forall>k. map_of mt k =
              (case map_of (spread_props (field ''tables'' serverSchema)) k of
                 Some v \<Rightarrow> Some v
               | None \<Rightarrow> map_of (spread_props (field ''tables'' localSchema)) k))"
proof -
  let ?lt = "spread_props (field ''tables'' localSchema)"
  let ?rt = "spread_props (field ''tables'' serverSchema)"
  let ?mt = "assign_props (assign_props [] ?lt) ?rt"
  from assms(1) have "field ''tables'' merged = Some (JObj ?mt)"
    by (auto simp add: mergeSchemas_def update_conv' split: if_splits)
  moreover have "map_of ?mt k = (case map_of ?rt k of Some v \<Rightarrow> Some v | None \<Rightarrow> map_of ?lt k)"
    for k
    by (simp add: map_of_assign_props [OF assms(3)] map_of_assign_props [OF assms(2)]
        split: option.splits)
  ultimately show ?thesis by blast
qed

text \<open>
  The theorem at two schemas sharing the table \<^verbatim>\<open>users\<close>: the merged \<^verbatim>\<open>users\<close> is the
  server's, without the local column \<^verbatim>\<open>nick\<close>.
\<close>

theorem merge_tables_shallow_witness:
  "mergeSchemas local4 server4 = Inr (JObj
     [(''tables'', JObj [(''users'', JObj [(''id'', JStr ''string''), (''email'', JStr ''string'')]),
                         (''notes'', JObj [(''body'', JStr ''string'')]),
                         (''orders'', JObj [(''total'', JStr ''number'')])]),
      (''version'', JStr ''1.1.0'')])
   \<and> (\<exists>mt. field ''tables'' (JObj
     [(''tables'', JObj [(''users'', JObj [(''id'', JStr ''string''), (''email'', JStr ''string'')]),
                         (''notes'', JObj [(''body'', JStr ''string'')]),
                         (''orders'', JObj [(''total'', JStr ''number'')])]),
      (''version'', JStr ''1.1.0'')]) = Some (JObj mt) \<and>
           (\<forall>k. map_of mt k =
              (case map_of (spread_props (field ''tables'' server4)) k of
                 Some v \<Rightarrow> Some v
               | None \<Rightarrow> map_of (spread_props (field ''tables'' local4)) k)))"
proof -
  have m: "mergeSchemas local4 server4 = Inr (JObj
     [(''tables'', JObj [(''users'', JObj [(''id'', JStr ''string''), (''email'', JStr ''string'')]),
                         (''notes'', JObj [(''body'', JStr ''string'')]),
                         (''orders'', JObj [(''total'', JStr ''number'')])]),
      (''version'', JStr ''1.1.0'')])"
    unfolding local4_def server4_def by code_simp
  have l: "distinct (map fst (spread_props (field ''tables'' local4)))"
    unfolding local4_def by code_simp
  have s: "distinct (map fst (spread_props (field ''tables'' server4)))"
    unfolding server4_def by code_simp
  from merge_tables_shallow [OF m l s] m show ?thesis by simp
qed

section \<open>Properties of the schema hash\<close>

text \<open>Modulo \<open>2^32\<close> the loop computes the hash of Bernstein.\<close>

lemma ToInt32_mod: "ToInt32 x mod 4294967296 = x mod 4294967296"
  by (simp add: ToInt32_def Let_def)

lemma ToInt32_range: "- 2147483648 \<le> ToInt32 x \<and> ToInt32 x < 2147483648"
proof -
  have "0 \<le> x mod 4294967296" "x mod 4294967296 < 4294967296" by simp_all
  then show ?thesis by (auto simp add: ToInt32_def Let_def)
qed

lemma shift_left_5_mod:
  assumes "h mod 4294967296 = h' mod 4294967296"
  shows "shift_left_5 h mod 4294967296 = (32 * h') mod 4294967296"
proof -
  have "ToInt32 h mod 4294967296 = h' mod 4294967296"
    using assms by (simp only: ToInt32_mod)
  then have "(ToInt32 h * 32) mod 4294967296 = (h' * 32) mod 4294967296"
    by (rule mod_mult_cong) simp
  then show ?thesis
    by (simp add: shift_left_5_def ToInt32_mod push_bit_eq_mult mult.commute)
qed

lemma hash_step_mod:
  assumes "h mod 4294967296 = h' mod 4294967296"
  shows "hash_step h c mod 4294967296 = (33 * h' + of_char c) mod 4294967296"
proof -
  have "(shift_left_5 h + h) mod 4294967296 = (32 * h' + h') mod 4294967296"
    using shift_left_5_mod [OF assms] assms by (rule mod_add_cong)
  then have "(shift_left_5 h + h + of_char c) mod 4294967296
      = (32 * h' + h' + of_char c) mod 4294967296"
    by (rule mod_add_cong) simp
  then show ?thesis by (simp add: hash_step_def)
qed

lemma foldl_hash_step_mod:
  "h mod 4294967296 = h' mod 4294967296 \<Longrightarrow>
     foldl hash_step h s mod 4294967296 = foldl (\<lambda>h c. 33 * h + of_char c) h' s mod 4294967296"
proof (induction s arbitrary: h h')
  case Nil
  then show ?case by simp
next
  case (Cons c s)
  from hash_step_mod [OF Cons.prems] have
    "hash_step h c mod 4294967296 = (33 * h' + of_char c) mod 4294967296" .
  from Cons.IH [OF this] show ?case by simp
qed

lemma hash_loop_mod: "hash_loop s mod 4294967296 = djb2 s mod 4294967296"
  unfolding hash_loop_def djb2_def by (rule foldl_hash_step_mod) simp

lemma and_7FFFFFFF_mod: "and_7FFFFFFF h = h mod 2147483648"
proof -
  have "(0x7FFFFFFF :: int) = mask 31" by (simp add: mask_eq_exp_minus_1)
  then have "and_7FFFFFFF h = take_bit 31 (ToInt32 h)"
    by (simp add: and_7FFFFFFF_def take_bit_eq_mask)
  also have "\<dots> = ToInt32 h mod 2147483648" by (simp add: take_bit_eq_mod)
  also have "\<dots> = (ToInt32 h mod 4294967296) mod 2147483648"
    by (simp add: mod_mod_cancel)
  also have "\<dots> = (h mod 4294967296) mod 2147483648" by (simp only: ToInt32_mod)
  also have "\<dots> = h mod 2147483648" by (simp add: mod_mod_cancel)
  finally show ?thesis .
qed

lemma getSchemaHash_djb2:
  "getSchemaHash schema = radix_digits 36 (nat (djb2 (stableJson schema) mod 2147483648))"
proof -
  let ?s = "stableJson schema"
  have "hash_loop ?s mod 2147483648 = (hash_loop ?s mod 4294967296) mod 2147483648"
    by (simp add: mod_mod_cancel)
  also have "\<dots> = (djb2 ?s mod 4294967296) mod 2147483648" by (simp only: hash_loop_mod)
  also have "\<dots> = djb2 ?s mod 2147483648" by (simp add: mod_mod_cancel)
  finally have "and_7FFFFFFF (hash_loop ?s) = djb2 ?s mod 2147483648"
    by (simp add: and_7FFFFFFF_mod)
  moreover have "0 \<le> djb2 ?s mod 2147483648" by simp
  ultimately show ?thesis by (simp add: getSchemaHash_def toString36_def)
qed

text \<open>Sorting the keys makes the printed string independent of their order.\<close>

lemma sort_key_permuted:
  assumes "mset xs = mset ys" "distinct (map f xs)"
  shows "sort_key f xs = sort_key f ys"
proof (rule sort_key_inj_key_eq)
  show "mset xs = mset (sort_key f ys)" using assms(1) by simp
  show "inj_on f (set xs)" using assms(2) by (simp add: distinct_map)
  show "sorted (map f (sort_key f ys))" by simp
qed

lemma sorted_copy_permuted:
  assumes "mset xs = mset ys" "distinct (map fst xs)"
  shows "sorted_copy xs = sorted_copy ys"
  unfolding sorted_copy_def by (simp only: sort_key_permuted [OF assms])

lemma rendered_pairs_eq:
  assumes "map fst kvs = map fst kvs'"
    and "list_all2 (\<lambda>v v'. f v = f v') (map snd kvs) (map snd kvs')"
  shows "map (\<lambda>(k, v). (k, f v)) kvs = map (\<lambda>(k, v). (k, f v)) kvs'"
  using assms
proof (induction kvs arbitrary: kvs')
  case Nil
  then show ?case by simp
next
  case (Cons p kvs)
  then obtain p' rest where "kvs' = p' # rest" by (cases kvs') auto
  with Cons show ?case by (cases p; cases p') auto
qed

lemma key_reordered_stableJson:
  "key_reordered a b \<Longrightarrow> stableJson a = stableJson b"
proof (induction rule: key_reordered.induct)
  case (same v)
  show ?case by simp
next
  case (arr xs ys)
  then have "list_all2 (\<lambda>x y. stableJson x = stableJson y) xs ys"
    by (simp add: list_all2_conv_all_nth)
  then have "map stableJson xs = map stableJson ys"
    by (induction rule: list_all2_induct) simp_all
  then show ?case by simp
next
  case (obj kvs kvs' kvs'')
  let ?g = "\<lambda>(k, v). (k, stableJson v)"
  from obj.IH have "list_all2 (\<lambda>v v'. stableJson v = stableJson v') (map snd kvs) (map snd kvs')"
    by (simp add: list_all2_conv_all_nth)
  with obj.hyps(2) have r: "map ?g kvs = map ?g kvs'" by (rule rendered_pairs_eq)
  from obj.hyps(3) have "mset (map ?g kvs'') = mset (map ?g kvs')" by (metis mset_map)
  with r have m: "mset (map ?g kvs) = mset (map ?g kvs'')" by simp
  have "map fst (map ?g kvs) = map fst kvs" by (induction kvs) auto
  with obj.hyps(1) have d: "distinct (map fst (map ?g kvs))" by (simp only:)
  from sorted_copy_permuted [OF m d] show ?case by simp
qed

text \<open>
  The running value stays within the integers that a double represents exactly, for
  every prefix of a string of up to \<open>2^21\<close> characters.
\<close>

lemma of_char_int_range: "0 \<le> (of_char c :: int) \<and> (of_char c :: int) < 256"
proof -
  have "(of_char c :: int) = int (of_char c)" by (simp add: of_char_def)
  moreover have "(of_char c :: nat) < 256" by simp
  ultimately show ?thesis by simp
qed

lemma hash_step_growth: "\<bar>hash_step h c\<bar> \<le> \<bar>h\<bar> + 2147483903"
proof -
  have "\<bar>shift_left_5 h\<bar> \<le> 2147483648"
    using ToInt32_range [of "push_bit 5 (ToInt32 h)"] unfolding shift_left_5_def by linarith
  with of_char_int_range [of c] show ?thesis unfolding hash_step_def by linarith
qed

lemma foldl_hash_step_growth:
  "\<bar>foldl hash_step h s\<bar> \<le> \<bar>h\<bar> + int (length s) * 2147483903"
proof (induction s arbitrary: h)
  case Nil
  show ?case by simp
next
  case (Cons c s)
  have "\<bar>foldl hash_step (hash_step h c) s\<bar> \<le> \<bar>hash_step h c\<bar> + int (length s) * 2147483903"
    by (rule Cons.IH)
  with hash_step_growth [of h c] show ?case by (simp add: algebra_simps)
qed

lemma hash_loop_exact_range:
  assumes "length s \<le> 2097152"
  shows "\<bar>hash_loop (take n s)\<bar> < 9007199254740992"
proof -
  have "length (take n s) \<le> 2097152" using assms by simp
  then have "int (length (take n s)) * 2147483903 \<le> 2097152 * 2147483903"
    by (simp add: mult_right_mono)
  with foldl_hash_step_growth [of 5381 "take n s"] show ?thesis
    by (simp add: hash_loop_def)
qed

lemma key_reordered_docA_docB: "key_reordered docA docB"
proof -
  let ?U = "JObj [(''id'', JStr ''string''), (''name'', JStr ''string'')]"
  let ?U' = "JObj [(''name'', JStr ''string''), (''id'', JStr ''string'')]"
  have u: "key_reordered ?U ?U'"
    by (rule key_reordered.obj [where kvs' = "[(''id'', JStr ''string''), (''name'', JStr ''string'')]"])
      (simp_all add: key_reordered.same)
  have t: "key_reordered (JObj [(''users'', ?U)]) (JObj [(''users'', ?U')])"
    by (rule key_reordered.obj [where kvs' = "[(''users'', ?U')]"]) (simp_all add: u)
  show ?thesis
    unfolding docA_def docB_def
    by (rule key_reordered.obj [where kvs' = "[(''tables'', JObj [(''users'', ?U')]), (''version'', JStr ''1'')]"])
      (simp_all add: t key_reordered.same)
qed

lemma hash_docA: "getSchemaHash docA = ''h0qy4n''"
proof -
  have "djb2 (stableJson docA) mod 2147483648 = 1029182279"
    unfolding docA_def by code_simp
  moreover have "radix_digits 36 (nat 1029182279) = ''h0qy4n''"
    by (simp add: radix_digits.simps digit_char_def char_of_eq_iff)
  ultimately show ?thesis by (simp only: getSchemaHash_djb2)
qed

lemma hash_Ez_FY: "getSchemaHash (with_array [JStr ''Ez'', JStr ''FY'']) = ''xk2r0j''"
proof -
  have "djb2 (stableJson (with_array [JStr ''Ez'', JStr ''FY''])) mod 2147483648 = 2029104451"
    unfolding with_array_def by code_simp
  moreover have "radix_digits 36 (nat 2029104451) = ''xk2r0j''"
    by (simp add: radix_digits.simps digit_char_def char_of_eq_iff)
  ultimately show ?thesis by (simp only: getSchemaHash_djb2)
qed

lemma hash_FY_Ez: "getSchemaHash (with_array [JStr ''FY'', JStr ''Ez'']) = ''xk2r0j''"
proof -
  have "djb2 (stableJson (with_array [JStr ''FY'', JStr ''Ez''])) mod 2147483648 = 2029104451"
    unfolding with_array_def by code_simp
  moreover have "radix_digits 36 (nat 2029104451) = ''xk2r0j''"
    by (simp add: radix_digits.simps digit_char_def char_of_eq_iff)
  ultimately show ?thesis by (simp only: getSchemaHash_djb2)
qed

lemma hash_a_b: "getSchemaHash (with_array [JStr ''a'', JStr ''b'']) = ''mk75xk''"
proof -
  have "djb2 (stableJson (with_array [JStr ''a'', JStr ''b''])) mod 2147483648 = 1364182472"
    unfolding with_array_def by code_simp
  moreover have "radix_digits 36 (nat 1364182472) = ''mk75xk''"
    by (simp add: radix_digits.simps digit_char_def char_of_eq_iff)
  ultimately show ?thesis by (simp only: getSchemaHash_djb2)
qed

lemma hash_b_a: "getSchemaHash (with_array [JStr ''b'', JStr ''a'']) = ''n19kqw''"
proof -
  have "djb2 (stableJson (with_array [JStr ''b'', JStr ''a''])) mod 2147483648 = 1392848456"
    unfolding with_array_def by code_simp
  moreover have "radix_digits 36 (nat 1392848456) = ''n19kqw''"
    by (simp add: radix_digits.simps digit_char_def char_of_eq_iff)
  ultimately show ?thesis by (simp only: getSchemaHash_djb2)
qed

text \<open>
  Claim C3, as amended. The hash is a function of the document alone. Two documents
  with the same content up to the order of object keys have the same hash. The hash is
  the base-36 form of the rolling hash masked to 31 bits, which is the hash of
  Bernstein of the key-sorted JSON string modulo \<open>2^31\<close>. An array is printed with
  its elements in their order, so the hash can depend on that order, and it does for
  the arrays \<^verbatim>\<open>["a","b"]\<close> and \<^verbatim>\<open>["b","a"]\<close>.
\<close>

theorem schema_hash_properties:
  "(key_reordered a b \<longrightarrow> getSchemaHash a = getSchemaHash b)
   \<and> getSchemaHash d = radix_digits 36 (nat (djb2 (stableJson d) mod 2 ^ 31))
   \<and> stableJson (JArr xs) = ''['' @ join '','' (map stableJson xs) @ '']''
   \<and> getSchemaHash (with_array [JStr ''a'', JStr ''b''])
       \<noteq> getSchemaHash (with_array [JStr ''b'', JStr ''a''])"
proof (intro conjI impI)
  assume "key_reordered a b"
  then have "stableJson a = stableJson b" by (rule key_reordered_stableJson)
  then show "getSchemaHash a = getSchemaHash b" by (simp add: getSchemaHash_def)
next
  show "getSchemaHash d = radix_digits 36 (nat (djb2 (stableJson d) mod 2 ^ 31))"
    using getSchemaHash_djb2 [of d] by simp
next
  show "stableJson (JArr xs) = ''['' @ join '','' (map stableJson xs) @ '']''" by simp
next
  show "getSchemaHash (with_array [JStr ''a'', JStr ''b''])
       \<noteq> getSchemaHash (with_array [JStr ''b'', JStr ''a''])"
    by (simp add: hash_a_b hash_b_a)
qed

text \<open>
  The theorem at two documents that differ in the order of keys at the top and in a
  table: both hash to \<^verbatim>\<open>h0qy4n\<close>.
\<close>

theorem schema_hash_properties_witness:
  "key_reordered docA docB \<and> docA \<noteq> docB
   \<and> getSchemaHash docA = ''h0qy4n'' \<and> getSchemaHash docB = ''h0qy4n''"
proof -
  have r: "key_reordered docA docB" by (rule key_reordered_docA_docB)
  from schema_hash_properties [of docA docB] r
  have "getSchemaHash docA = getSchemaHash docB" by blast
  moreover have "docA \<noteq> docB" by (simp add: docA_def docB_def)
  ultimately show ?thesis using r hash_docA by simp
qed

text \<open>
  Claim C3 as stated fails in its third part: the arrays \<^verbatim>\<open>["Ez","FY"]\<close> and
  \<^verbatim>\<open>["FY","Ez"]\<close> hold different elements in a different order, and the documents
  around them have the same hash. A hash of 31 bits cannot tell all orders apart.
\<close>

theorem schema_hash_array_order_counterexample:
  "[JStr ''Ez'', JStr ''FY''] \<noteq> [JStr ''FY'', JStr ''Ez'']
   \<and> JStr ''Ez'' \<noteq> JStr ''FY''
   \<and> getSchemaHash (with_array [JStr ''Ez'', JStr ''FY''])
       = getSchemaHash (with_array [JStr ''FY'', JStr ''Ez''])"
  by (simp add: hash_Ez_FY hash_FY_Ez)

section \<open>Properties of push\<close>

lemma emit_events [simp]: "events (emit e w) = events w @ [e]"
  by (simp add: emit_def)

lemma emit_schema_file [simp]: "schema_file (emit e w) = schema_file w"
  by (simp add: emit_def)

lemma emit_last_pull_file [simp]: "last_pull_file (emit e w) = last_pull_file w"
  by (simp add: emit_def)

lemma emit_last_push_file [simp]: "last_push_file (emit e w) = last_push_file w"
  by (simp add: emit_def)

lemma push_cases:
  assumes "push force env w = (outcome, w')"
  shows "(outcome = Pushed \<and> (\<exists>schemaData mtime status.
            schema_file w = Some (Parsed schemaData, mtime) \<and> push_reply env = Inr status
            \<and> w' = updateLastPushFile (push_now env) (getSchemaHash schemaData)
                     (project_id schemaData) (emit (HttpPost None) w)))
       \<or> (\<exists>e. outcome = PushFailed (Some e) \<and> push_reply env = Inl e
              \<and> w' = emit (HttpPost (Some e)) w)
       \<or> (outcome \<in> {PushNoSchemaFile, PushProcessExit, PushFailed None, Unchanged} \<and> w' = w)"
  using assms
  by (auto simp add: push_def Let_def checkSchemaExists_def
      split: if_splits option.splits prod.splits stored.splits sum.splits)

lemma push_unchanged:
  assumes "schema_file w = Some (Parsed schemaData, mtime)" "schemaData \<noteq> JNull"
    and "last_push_file w = Some (Parsed lastPushData)"
    and "push_hash lastPushData = getSchemaHash schemaData"
  shows "push False env w = (Unchanged, w)"
  using assms by (simp add: push_def Let_def checkSchemaExists_def hasSchemaChanged_def)

lemma push_again_unchanged:
  assumes "schema_file w = Some (Parsed schemaData, mtime)" "schemaData \<noteq> JNull"
  shows "push False env (updateLastPushFile now (getSchemaHash schemaData) pid (emit e w))
         = (Unchanged, updateLastPushFile now (getSchemaHash schemaData) pid (emit e w))"
proof (rule push_unchanged)
  show "schema_file (updateLastPushFile now (getSchemaHash schemaData) pid (emit e w))
        = Some (Parsed schemaData, mtime)"
    using assms(1) by (simp add: updateLastPushFile_def Let_def)
  show "schemaData \<noteq> JNull" by (rule assms(2))
  show "last_push_file (updateLastPushFile now (getSchemaHash schemaData) pid (emit e w))
        = Some (Parsed \<lparr>push_time = Date now, push_hash = getSchemaHash schemaData, push_id = pid\<rparr>)"
    by (simp add: updateLastPushFile_def Let_def)
  show "push_hash \<lparr>push_time = Date now, push_hash = getSchemaHash schemaData, push_id = pid\<rparr>
        = getSchemaHash schemaData" by simp
qed

lemma push_after_failure:
  assumes "push False env1 w = (PushFailed (Some e), w1)"
    and "push_logged_in env2"
    and "push False env2 w1 = (outcome2, w2)"
  shows "outcome2 \<in> {Pushed} \<union> {PushFailed (Some e') | e'. True}
         \<and> network_calls (events w2) = network_calls (events w) + 2"
proof -
  from assms(1) obtain schemaData mtime where
    sf: "schema_file w = Some (Parsed schemaData, mtime)" and n: "schemaData \<noteq> JNull"
    and ch: "hasSchemaChanged w (getSchemaHash schemaData) False"
    and w1: "w1 = emit (HttpPost (Some e)) w"
    by (auto simp add: push_def Let_def checkSchemaExists_def
        split: if_splits option.splits prod.splits stored.splits sum.splits)
  from ch have ch1: "hasSchemaChanged w1 (getSchemaHash schemaData) False"
    by (simp add: hasSchemaChanged_def w1)
  from sf have sf1: "schema_file w1 = Some (Parsed schemaData, mtime)" by (simp add: w1)
  show ?thesis
  proof (cases "push_reply env2")
    case (Inl e')
    with assms(2,3) sf1 n ch1 have "outcome2 = PushFailed (Some e')"
      "w2 = emit (HttpPost (Some e')) w1"
      by (simp_all add: push_def Let_def checkSchemaExists_def)
    then show ?thesis by (simp add: w1 network_calls_def)
  next
    case (Inr status)
    with assms(2,3) sf1 n ch1 have "outcome2 = Pushed"
      "w2 = updateLastPushFile (push_now env2) (getSchemaHash schemaData)
              (project_id schemaData) (emit (HttpPost None) w1)"
      by (simp_all add: push_def Let_def checkSchemaExists_def)
    then show ?thesis by (simp add: w1 network_calls_def updateLastPushFile_def Let_def)
  qed
qed

text \<open>
  Claim C5, as amended. Without \<^verbatim>\<open>force\<close>, when the hash of the last-push record is
  the hash of the current schema, push reports the schema unchanged and leaves the
  world as it is: no request is sent. Hence of two pushes in a row without
  \<^verbatim>\<open>force\<close>, between which the schema file does not change, the second sends no
  request when the first has transmitted the schema, and unless the request of the
  first push fails the two runs together send at most one request. A push whose
  request fails has sent one request and leaves the last-push file as it was, so the
  next push, when logged in, sends the schema again: the two runs have then sent two
  requests. In every case they send at most two, of which at most one succeeds.
\<close>

theorem push_unchanged_no_network:
  assumes "schema_file w = Some (Parsed schemaData, mtime)" "schemaData \<noteq> JNull"
    and "push False env1 w = (outcome1, w1)"
    and "push False env2 w1 = (outcome2, w2)"
  shows "(\<forall>lastPushData. last_push_file w = Some (Parsed lastPushData)
            \<and> push_hash lastPushData = getSchemaHash schemaData
            \<longrightarrow> outcome1 = Unchanged \<and> w1 = w \<and> network_calls (events w1) = network_calls (events w))
       \<and> (outcome1 = Pushed \<longrightarrow> outcome2 = Unchanged \<and> w2 = w1)
       \<and> ((\<forall>e. outcome1 \<noteq> PushFailed (Some e))
            \<longrightarrow> network_calls (events w2) \<le> network_calls (events w) + 1)
       \<and> (\<forall>e. outcome1 = PushFailed (Some e)
            \<longrightarrow> network_calls (events w1) = network_calls (events w) + 1
                \<and> last_push_file w1 = last_push_file w)
       \<and> (\<forall>e. outcome1 = PushFailed (Some e) \<and> push_logged_in env2
            \<longrightarrow> network_calls (events w2) = network_calls (events w) + 2)
       \<and> network_calls (events w2) \<le> network_calls (events w) + 2
       \<and> transmissions (events w2) \<le> transmissions (events w) + 1"
proof -
  have first: "outcome1 = Unchanged \<and> w1 = w
                \<and> network_calls (events w1) = network_calls (events w)"
    if "last_push_file w = Some (Parsed lastPushData)
          \<and> push_hash lastPushData = getSchemaHash schemaData" for lastPushData
  proof -
    from that have l: "last_push_file w = Some (Parsed lastPushData)"
      and h: "push_hash lastPushData = getSchemaHash schemaData" by simp_all
    have "push False env1 w = (Unchanged, w)"
      by (rule push_unchanged [OF assms(1,2) l h])
    with assms(3) show ?thesis by simp
  qed
  have pushed: "w1 = updateLastPushFile (push_now env1) (getSchemaHash schemaData)
                   (project_id schemaData) (emit (HttpPost None) w)"
    if "outcome1 = Pushed"
    using push_cases [OF assms(3)] assms(1) that by auto
  have second: "outcome2 = Unchanged \<and> w2 = w1" if "outcome1 = Pushed"
    using push_again_unchanged [OF assms(1,2)] assms(4) unfolding pushed [OF that] by simp
  have count: "transmissions (events w2) \<le> transmissions (events w) + 1"
  proof (cases "outcome1 = Pushed")
    case True
    from second [OF True] pushed [OF True] show ?thesis
      by (simp add: updateLastPushFile_def Let_def transmissions_def)
  next
    case False
    with push_cases [OF assms(3)]
    have "transmissions (events w1) = transmissions (events w)"
      by (auto simp add: transmissions_def)
    moreover from push_cases [OF assms(4)]
    have "transmissions (events w2) \<le> transmissions (events w1) + 1"
      by (auto simp add: transmissions_def updateLastPushFile_def Let_def)
    ultimately show ?thesis by simp
  qed
  have calls: "network_calls (events w2) \<le> network_calls (events w) + 1"
    if "\<forall>e. outcome1 \<noteq> PushFailed (Some e)"
  proof (cases "outcome1 = Pushed")
    case True
    from second [OF True] pushed [OF True] show ?thesis
      by (simp add: updateLastPushFile_def Let_def network_calls_def)
  next
    case False
    with push_cases [OF assms(3)] that have "w1 = w" by auto
    moreover from push_cases [OF assms(4)]
    have "network_calls (events w2) \<le> network_calls (events w1) + 1"
      by (auto simp add: network_calls_def updateLastPushFile_def Let_def)
    ultimately show ?thesis by simp
  qed
  have failed: "network_calls (events w1) = network_calls (events w) + 1
                  \<and> last_push_file w1 = last_push_file w"
    if "outcome1 = PushFailed (Some e)" for e
    using push_cases [OF assms(3)] that by (auto simp add: network_calls_def)
  have total: "network_calls (events w2) \<le> network_calls (events w) + 2"
  proof -
    from push_cases [OF assms(3)]
    have "network_calls (events w1) \<le> network_calls (events w) + 1"
      by (auto simp add: network_calls_def updateLastPushFile_def Let_def)
    moreover from push_cases [OF assms(4)]
    have "network_calls (events w2) \<le> network_calls (events w1) + 1"
      by (auto simp add: network_calls_def updateLastPushFile_def Let_def)
    ultimately show ?thesis by simp
  qed
  have again: "network_calls (events w2) = network_calls (events w) + 2"
    if "outcome1 = PushFailed (Some e) \<and> push_logged_in env2" for e
  proof -
    from that assms(3) have "push False env1 w = (PushFailed (Some e), w1)" by simp
    from push_after_failure [OF this _ assms(4)] that show ?thesis by simp
  qed
  from first second calls failed again total count show ?thesis by blast
qed

text \<open>
  The theorem at a working directory whose last-push record holds the hash
  \<^verbatim>\<open>h0qy4n\<close> of the schema, where push sends nothing, and at one without a last-push
  file, where the first push transmits and the second sends nothing.
\<close>

theorem push_unchanged_no_network_witness:
  "push False env_ok world5 = (Unchanged, world5)
   \<and> network_calls (events world5) = 0
   \<and> fst (push False env_ok world6) = Pushed
   \<and> fst (push False env_ok (snd (push False env_ok world6))) = Unchanged
   \<and> network_calls (events (snd (push False env_ok (snd (push False env_ok world6))))) \<le> 1
   \<and> transmissions (events (snd (push False env_ok (snd (push False env_ok world6))))) \<le> 1"
proof -
  have h: "getSchemaHash schema5 = ''h0qy4n''"
  proof -
    have "djb2 (stableJson schema5) mod 2147483648 = 1029182279"
      unfolding schema5_def by code_simp
    moreover have "radix_digits 36 (nat 1029182279) = ''h0qy4n''"
      by (simp add: radix_digits.simps digit_char_def char_of_eq_iff)
    ultimately show ?thesis by (simp only: getSchemaHash_djb2)
  qed
  have n: "schema5 \<noteq> JNull" by (simp add: schema5_def)
  have s5: "schema_file world5 = Some (Parsed schema5, 1700000000000)"
    by (simp add: world5_def)
  have l: "last_push_file world5 = Some (Parsed \<lparr>push_time = Date 1600000000000,
                                             push_hash = ''h0qy4n'', push_id = Some (JStr [])\<rparr>)"
    by (simp add: world5_def)
  obtain o1 w1 where 1: "push False env_ok world5 = (o1, w1)"
    by (cases "push False env_ok world5")
  obtain o2 w2 where 2: "push False env_ok w1 = (o2, w2)"
    by (cases "push False env_ok w1")
  from push_unchanged_no_network [OF s5 n 1 2] l h
  have "o1 = Unchanged \<and> w1 = world5" by simp
  with 1 have a: "push False env_ok world5 = (Unchanged, world5)" by simp
  have b: "network_calls (events world5) = 0"
    by (simp add: world5_def network_calls_def)
  have s6: "schema_file world6 = Some (Parsed schema5, 1700000000000)"
    by (simp add: world6_def)
  obtain o3 w3 where 3: "push False env_ok world6 = (o3, w3)"
    by (cases "push False env_ok world6")
  obtain o4 w4 where 4: "push False env_ok w3 = (o4, w4)"
    by (cases "push False env_ok w3")
  have o3: "o3 = Pushed"
    using 3 by (simp add: push_def Let_def checkSchemaExists_def hasSchemaChanged_def
        world6_def env_ok_def schema5_def)
  from push_unchanged_no_network [OF s6 n 3 4] o3
  have "o4 = Unchanged" by blast
  moreover from push_unchanged_no_network [OF s6 n 3 4]
  have "transmissions (events w4) \<le> transmissions (events world6) + 1" by blast
  moreover have "transmissions (events world6) = 0"
    by (simp add: world6_def transmissions_def)
  moreover from push_unchanged_no_network [OF s6 n 3 4] o3
  have "network_calls (events w4) \<le> network_calls (events world6) + 1" by blast
  moreover have "network_calls (events world6) = 0"
    by (simp add: world6_def network_calls_def)
  ultimately show ?thesis using a b 3 4 o3 by simp
qed

text \<open>
  Claim C5 as stated fails in its second part: from a working directory without a
  last-push file, a push whose request times out records nothing, and the next push of
  the same schema, again without \<^verbatim>\<open>force\<close>, sends the request again. The two pushes
  have sent two requests.
\<close>

theorem push_twice_counterexample:
  "fst (push False env_timeout world6) = PushFailed (Some ECONNABORTED)
   \<and> schema_file (snd (push False env_timeout world6)) = schema_file world6
   \<and> fst (push False env_ok (snd (push False env_timeout world6))) = Pushed
   \<and> events (snd (push False env_ok (snd (push False env_timeout world6))))
       = [HttpPost (Some ECONNABORTED), HttpPost None,
          WroteLastPush \<lparr>push_time = Date 1700000005000,
                          push_hash = getSchemaHash schema5, push_id = Some (JStr [])\<rparr>]
   \<and> network_calls (events (snd (push False env_ok (snd (push False env_timeout world6))))) = 2"
proof -
  have n: "schema5 \<noteq> JNull" by (simp add: schema5_def)
  have p: "project_id schema5 = Some (JStr [])" by (simp add: schema5_def project_id_def)
  have 1: "push False env_timeout world6
           = (PushFailed (Some ECONNABORTED), emit (HttpPost (Some ECONNABORTED)) world6)"
    using n by (simp add: push_def Let_def checkSchemaExists_def hasSchemaChanged_def
        world6_def env_timeout_def)
  have 2: "push False env_ok (emit (HttpPost (Some ECONNABORTED)) world6)
           = (Pushed, updateLastPushFile 1700000005000 (getSchemaHash schema5) (Some (JStr []))
                (emit (HttpPost None) (emit (HttpPost (Some ECONNABORTED)) world6)))"
    using n by (simp add: push_def Let_def checkSchemaExists_def hasSchemaChanged_def
        world6_def env_ok_def emit_def p)
  show ?thesis
    unfolding 1 snd_conv fst_conv 2
    by (simp add: updateLastPushFile_def Let_def network_calls_def world6_def)
qed

text \<open>
  Claim C6. Whatever push does, the last-push file is the one it found unless the
  outcome is a completed push. A completed push has sent the request, the backend has
  answered with success, and the record with the current time, the hash of the schema
  and the project id is written after that answer, as the last effect of the run.
\<close>

theorem push_record_only_after_success:
  assumes "push force env w = (outcome, w')"
  shows "(outcome \<noteq> Pushed \<longrightarrow> last_push_file w' = last_push_file w)
       \<and> (outcome = Pushed \<longrightarrow>
            (\<exists>schemaData mtime status lastPushData.
               schema_file w = Some (Parsed schemaData, mtime)
               \<and> push_reply env = Inr status
               \<and> lastPushData = \<lparr>push_time = Date (push_now env),
                                   push_hash = getSchemaHash schemaData,
                                   push_id = project_id schemaData\<rparr>
               \<and> last_push_file w' = Some (Parsed lastPushData)
               \<and> events w' = events w @ [HttpPost None, WroteLastPush lastPushData]))"
  using push_cases [OF assms]
  by (auto simp add: updateLastPushFile_def Let_def)

text \<open>
  The theorem at a push that succeeds and at one that times out, from a working
  directory without a last-push file.
\<close>

theorem push_record_only_after_success_witness:
  "fst (push False env_ok world6) = Pushed
   \<and> last_push_file (snd (push False env_ok world6)) \<noteq> None
   \<and> fst (push False env_timeout world6) = PushFailed (Some ECONNABORTED)
   \<and> last_push_file (snd (push False env_timeout world6)) = None"
proof -
  obtain o1 w1 where 1: "push False env_ok world6 = (o1, w1)" by (cases "push False env_ok world6")
  obtain o2 w2 where 2: "push False env_timeout world6 = (o2, w2)"
    by (cases "push False env_timeout world6")
  have o1: "o1 = Pushed"
    using 1 by (simp add: push_def Let_def checkSchemaExists_def hasSchemaChanged_def
        world6_def env_ok_def schema5_def)
  have o2: "o2 = PushFailed (Some ECONNABORTED)"
    using 2 by (simp add: push_def Let_def checkSchemaExists_def hasSchemaChanged_def
        world6_def env_timeout_def schema5_def)
  from push_record_only_after_success [OF 1] o1 have "last_push_file w1 \<noteq> None" by auto
  moreover from push_record_only_after_success [OF 2] o2
  have "last_push_file w2 = None" by (simp add: world6_def)
  ultimately show ?thesis using 1 2 o1 o2 by simp
qed

section \<open>Properties of the AI inference\<close>

lemma rethrow_parse_failure:
  "rethrow \<lparr>exn_name = ''Error'', exn_code = None, exn_message = Some parse_failure_message\<rparr>
     = AnalysisFailed (''AI analysis failed: '' @ parse_failure_message)"
proof -
  have "\<not> includes_str parse_failure_message ''maximum context length''"
    unfolding parse_failure_message_def by code_simp
  moreover have "\<not> includes_str parse_failure_message ''invalid api key''"
    unfolding parse_failure_message_def by code_simp
  moreover have "parse_failure_message \<noteq> []"
    by (simp add: parse_failure_message_def)
  ultimately show ?thesis by (simp add: rethrow_def message_includes_def)
qed

text \<open>
  Claim C9. When the text of the provider is not JSON, \<^verbatim>\<open>analyzeWithAI\<close> returns no
  schema: it fails with the error that carries the parse failure. The scan command
  run with the AI option on a valid path then ends with that failure and leaves the
  world as it found it: no schema file is written.
\<close>

theorem ai_invalid_json_aborts:
  "analyzeWithAI (ProviderReplied (NotJson text))
     = Inl (AnalysisFailed (''AI analysis failed: '' @ parse_failure_message))
   \<and> scan (env\<lparr>path_valid := True, useAI := True,
                ai_result := ProviderReplied (NotJson text)\<rparr>) w
     = (AIAnalysisFailed (AnalysisFailed (''AI analysis failed: '' @ parse_failure_message)), w)"
  by (simp add: analyzeWithAI_def after_reply_def rethrow_parse_failure scan_def)

text \<open>
  The theorem at the reply \<^verbatim>\<open>not json\<close>, in a working directory with a schema file: the
  scan fails and the working directory is as before.
\<close>

theorem ai_invalid_json_aborts_witness:
  "analyzeWithAI (ProviderReplied (NotJson ''not json''))
     = Inl (AnalysisFailed (''AI analysis failed: '' @ parse_failure_message))
   \<and> scan env9 world6
     = (AIAnalysisFailed (AnalysisFailed (''AI analysis failed: '' @ parse_failure_message)), world6)"
proof -
  have "env9\<lparr>path_valid := True, useAI := True,
             ai_result := ProviderReplied (NotJson ''not json'')\<rparr> = env9"
    by (simp add: env9_def)
  with ai_invalid_json_aborts [of "''not json''" env9 world6] show ?thesis by simp
qed

section \<open>Properties of pull\<close>

lemma getSchemaHash_not_Nil: "getSchemaHash schema \<noteq> []"
  by (simp add: getSchemaHash_def toString36_def radix_digits_not_Nil)

lemma updateSchemaFile_events [simp]:
  "\<exists>d. events (updateSchemaFile now schema w) = events w @ [WroteSchema d]"
  by (simp add: updateSchemaFile_def Let_def)

lemma updateSchemaFile_last_pull [simp]:
  "last_pull_file (updateSchemaFile now schema w) = last_pull_file w"
  by (simp add: updateSchemaFile_def Let_def)

lemma updateLastPullTime_simps [simp]:
  "events (updateLastPullTime now h w) = events w @ [WroteLastPull \<lparr>pull_time = Date now, pull_hash = h\<rparr>]"
  "schema_file (updateLastPullTime now h w) = schema_file w"
  "last_pull_file (updateLastPullTime now h w) = Some (Parsed \<lparr>pull_time = Date now, pull_hash = h\<rparr>)"
  by (simp_all add: updateLastPullTime_def Let_def)

text \<open>What the handling of a conflict does, by the choice that resolves it.\<close>

lemma resolveConflict_post:
  assumes "resolveConflict action now localSchema serverSchema w = (result, w')"
  shows "\<exists>evs. events w' = events w @ evs \<and> choice_precedes_writes True evs
           \<and> last_pull_file w' = last_pull_file w
           \<and> (action = LOCAL \<longrightarrow> result = Inr KeptLocal \<and> w' = w \<and> evs = [])"
proof (cases "action = LOCAL")
  case True
  with assms have "result = Inr KeptLocal" "w' = w"
    by (simp_all add: resolveConflict_def)
  then show ?thesis using True by simp
next
  case notlocal: False
  show ?thesis
  proof (cases "action = MERGE")
    case True
    show ?thesis
    proof (cases "mergeSchemas localSchema serverSchema")
      case (Inl e)
      with True notlocal assms have "w' = w" by (simp add: resolveConflict_def)
      then show ?thesis using notlocal by simp
    next
      case (Inr m)
      with True notlocal assms have w': "w' = updateSchemaFile now m w"
        by (simp add: resolveConflict_def)
      obtain d where "events w' = events w @ [WroteSchema d]"
        unfolding w' using updateSchemaFile_events by blast
      moreover have "choice_precedes_writes True [WroteSchema d]" by simp
      moreover have "last_pull_file w' = last_pull_file w" unfolding w' by simp
      ultimately show ?thesis using notlocal by blast
    qed
  next
    case False
    with notlocal assms have w': "w' = updateSchemaFile now serverSchema w"
      by (simp add: resolveConflict_def)
    obtain d where "events w' = events w @ [WroteSchema d]"
      unfolding w' using updateSchemaFile_events by blast
    moreover have "choice_precedes_writes True [WroteSchema d]" by simp
    moreover have "last_pull_file w' = last_pull_file w" unfolding w' by simp
    ultimately show ?thesis using notlocal by blast
  qed
qed

lemma handleSchemaConflicts_post:
  assumes "handleSchemaConflicts env localSchema serverSchema w = (result, w')"
  shows "\<exists>evs. events w' = events w @ evs \<and> choice_precedes_writes False evs
           \<and> last_pull_file w' = last_pull_file w
           \<and> (first_answer env = None \<longrightarrow> evs = [])
           \<and> (\<forall>a. first_answer env = Some a \<longrightarrow> (\<exists>rest. evs = Chose a # rest))
           \<and> (final_choice env = None \<longrightarrow>
                 result = Inl PromptRejected \<and> schema_file w' = schema_file w
                 \<and> (\<forall>d. WroteSchema d \<notin> set evs))
           \<and> (final_choice env = Some LOCAL \<longrightarrow>
                 result = Inr KeptLocal \<and> schema_file w' = schema_file w
                 \<and> (\<forall>d. WroteSchema d \<notin> set evs))"
proof (cases "first_answer env")
  case None
  with assms have "result = Inl PromptRejected" "w' = w"
    by (simp_all add: handleSchemaConflicts_def)
  with None show ?thesis by (simp add: final_choice_def)
next
  case first: (Some a)
  show ?thesis
  proof (cases "a = DIFF")
    case False
    with first assms have r: "resolveConflict a (pull_now env) localSchema serverSchema
        (emit (Chose a) w) = (result, w')"
      by (simp add: handleSchemaConflicts_def)
    from False first have f: "final_choice env = Some a"
      by (cases a) (simp_all add: final_choice_def)
    from resolveConflict_post [OF r] obtain evs where
      evs: "events w' = events (emit (Chose a) w) @ evs" "choice_precedes_writes True evs"
        "last_pull_file w' = last_pull_file (emit (Chose a) w)"
        "a = LOCAL \<longrightarrow> result = Inr KeptLocal \<and> w' = emit (Chose a) w \<and> evs = []"
      by blast
    let ?evs = "Chose a # evs"
    have 1: "events w' = events w @ ?evs" using evs(1) by simp
    have 2: "choice_precedes_writes False ?evs" using evs(2) by simp
    have 3: "last_pull_file w' = last_pull_file w" using evs(3) by simp
    have 4: "final_choice env = Some LOCAL \<longrightarrow>
                 result = Inr KeptLocal \<and> schema_file w' = schema_file w
                 \<and> (\<forall>d. WroteSchema d \<notin> set ?evs)"
      using evs(4) f by auto
    from 1 2 3 4 first f show ?thesis by (intro exI [of _ ?evs]) simp
  next
    case True
    show ?thesis
    proof (cases "second_answer env")
      case None
      with True first assms have "result = Inl PromptRejected"
        "w' = emit DiffShown (emit (Chose a) w)"
        by (simp_all add: handleSchemaConflicts_def handleDiffView_def)
      moreover from None True first have "final_choice env = None"
        by (simp add: final_choice_def)
      ultimately show ?thesis using first
        by (intro exI [of _ "[Chose a, DiffShown]"]) simp
    next
      case second: (Some b)
      with True first assms
      have r: "resolveConflict b (pull_now env) localSchema serverSchema
          (emit (Chose b) (emit DiffShown (emit (Chose a) w))) = (result, w')"
        by (simp add: handleSchemaConflicts_def handleDiffView_def)
      from True second first have f: "final_choice env = Some b"
        by (simp add: final_choice_def)
      from resolveConflict_post [OF r] obtain evs where
        evs: "events w' = events (emit (Chose b) (emit DiffShown (emit (Chose a) w))) @ evs"
          "choice_precedes_writes True evs"
          "last_pull_file w' = last_pull_file (emit (Chose b) (emit DiffShown (emit (Chose a) w)))"
          "b = LOCAL \<longrightarrow> result = Inr KeptLocal
             \<and> w' = emit (Chose b) (emit DiffShown (emit (Chose a) w)) \<and> evs = []"
        by blast
      let ?evs = "Chose a # DiffShown # Chose b # evs"
      have 1: "events w' = events w @ ?evs" using evs(1) by simp
      have 2: "choice_precedes_writes False ?evs" using evs(2) by simp
      have 3: "last_pull_file w' = last_pull_file w" using evs(3) by simp
      have 4: "final_choice env = Some LOCAL \<longrightarrow>
                 result = Inr KeptLocal \<and> schema_file w' = schema_file w
                 \<and> (\<forall>d. WroteSchema d \<notin> set ?evs)"
        using evs(4) f by auto
      from 1 2 3 4 first f show ?thesis by (intro exI [of _ ?evs]) simp
    qed
  qed
qed

lemma choice_precedes_writes_snoc_last_pull:
  "choice_precedes_writes c (es @ [WroteLastPull p]) = choice_precedes_writes c es"
  by (induction c es rule: choice_precedes_writes.induct) simp_all

lemma processServerResponse_conflict:
  assumes "serverSchema_of response = Some serverSchema" "truthy serverSchema"
    and "response_data_updated response \<or> getSchemaHash serverSchema \<noteq> localSchemaHash"
    and "hasLocalChanges w lastPullTime"
    and "handleSchemaConflicts env schemaData serverSchema w = (r0, w0)"
  shows "processServerResponse env response schemaData localSchemaHash lastPullTime w
           = (case r0 of
                Inl e \<Rightarrow> (Inl e, w0)
              | Inr outcome \<Rightarrow>
                  (Inr outcome,
                   updateLastPullTime (pull_now env) (getSchemaHash serverSchema) w0))"
  using assms
  by (cases r0)
    (simp_all add: processServerResponse_def truthy_opt_def Let_def getSchemaHash_not_Nil)

lemma conflict_post_failed:
  assumes evs: "events w0 = events w @ evs" "choice_precedes_writes False evs"
      "first_answer env = None \<longrightarrow> evs = []"
      "\<forall>a. first_answer env = Some a \<longrightarrow> (\<exists>rest. evs = Chose a # rest)"
      "final_choice env = None \<longrightarrow>
         r0 = Inl PromptRejected \<and> schema_file w0 = schema_file w \<and> (\<forall>d. WroteSchema d \<notin> set evs)"
      "final_choice env = Some LOCAL \<longrightarrow>
         r0 = Inr KeptLocal \<and> schema_file w0 = schema_file w \<and> (\<forall>d. WroteSchema d \<notin> set evs)"
    and eq: "result = r0" "w' = w0"
  shows "\<exists>evs. events w' = events w @ evs \<and> choice_precedes_writes False evs
           \<and> (first_answer env = None \<longrightarrow> evs = [])
           \<and> (\<forall>a. first_answer env = Some a \<longrightarrow> (\<exists>rest. evs = Chose a # rest))
           \<and> (final_choice env = None \<longrightarrow>
                 result = Inl PromptRejected \<and> schema_file w' = schema_file w
                 \<and> (\<forall>d. WroteSchema d \<notin> set evs))
           \<and> (final_choice env = Some LOCAL \<longrightarrow>
                 result = Inr KeptLocal \<and> schema_file w' = schema_file w
                 \<and> (\<forall>d. WroteSchema d \<notin> set evs))"
  unfolding eq by (intro exI [of _ evs] conjI) (rule evs)+

lemma conflict_post_resolved:
  assumes evs: "events w0 = events w @ evs" "choice_precedes_writes False evs"
      "first_answer env = None \<longrightarrow> evs = []"
      "\<forall>a. first_answer env = Some a \<longrightarrow> (\<exists>rest. evs = Chose a # rest)"
      "final_choice env = None \<longrightarrow>
         r0 = Inl PromptRejected \<and> schema_file w0 = schema_file w \<and> (\<forall>d. WroteSchema d \<notin> set evs)"
      "final_choice env = Some LOCAL \<longrightarrow>
         r0 = Inr KeptLocal \<and> schema_file w0 = schema_file w \<and> (\<forall>d. WroteSchema d \<notin> set evs)"
    and res: "result = r0" and w': "w' = updateLastPullTime now h w0"
    and Inr: "r0 = Inr outcome"
  shows "\<exists>evs. events w' = events w @ evs \<and> choice_precedes_writes False evs
           \<and> (first_answer env = None \<longrightarrow> evs = [])
           \<and> (\<forall>a. first_answer env = Some a \<longrightarrow> (\<exists>rest. evs = Chose a # rest))
           \<and> (final_choice env = None \<longrightarrow>
                 result = Inl PromptRejected \<and> schema_file w' = schema_file w
                 \<and> (\<forall>d. WroteSchema d \<notin> set evs))
           \<and> (final_choice env = Some LOCAL \<longrightarrow>
                 result = Inr KeptLocal \<and> schema_file w' = schema_file w
                 \<and> (\<forall>d. WroteSchema d \<notin> set evs))"
proof -
  define evs' where "evs' = evs @ [WroteLastPull \<lparr>pull_time = Date now, pull_hash = h\<rparr>]"
  from Inr evs(5) have chosen: "final_choice env \<noteq> None" by auto
  then have answered: "first_answer env \<noteq> None"
    by (cases "first_answer env") (simp_all add: final_choice_def)
  have 1: "events w' = events w @ evs'" using w' evs(1) by (simp add: evs'_def)
  have 2: "choice_precedes_writes False evs'"
    using evs(2) by (simp add: evs'_def choice_precedes_writes_snoc_last_pull)
  have 3: "\<forall>a. first_answer env = Some a \<longrightarrow> (\<exists>rest. evs' = Chose a # rest)"
  proof (intro allI impI)
    fix a assume "first_answer env = Some a"
    with evs(4) obtain rest where "evs = Chose a # rest" by blast
    then have "evs' = Chose a # (rest @ [WroteLastPull \<lparr>pull_time = Date now, pull_hash = h\<rparr>])"
      by (simp add: evs'_def)
    then show "\<exists>rest. evs' = Chose a # rest" by blast
  qed
  have 4: "final_choice env = Some LOCAL \<longrightarrow>
         result = Inr KeptLocal \<and> schema_file w' = schema_file w
         \<and> (\<forall>d. WroteSchema d \<notin> set evs')"
  proof
    assume "final_choice env = Some LOCAL"
    with evs(6) have "r0 = Inr KeptLocal" "schema_file w0 = schema_file w"
      "\<forall>d. WroteSchema d \<notin> set evs" by simp_all
    then show "result = Inr KeptLocal \<and> schema_file w' = schema_file w
         \<and> (\<forall>d. WroteSchema d \<notin> set evs')"
      unfolding res w' by (simp add: evs'_def)
  qed
  have 5: "first_answer env = None \<longrightarrow> evs' = []"
  proof
    assume "first_answer env = None"
    with answered show "evs' = []" by contradiction
  qed
  have 6: "final_choice env = None \<longrightarrow>
                 result = Inl PromptRejected \<and> schema_file w' = schema_file w
                 \<and> (\<forall>d. WroteSchema d \<notin> set evs')"
  proof
    assume "final_choice env = None"
    with chosen show "result = Inl PromptRejected \<and> schema_file w' = schema_file w
                 \<and> (\<forall>d. WroteSchema d \<notin> set evs')" by contradiction
  qed
  show ?thesis
    by (intro exI [of _ evs'] conjI) (rule 1 2 3 5 6 4)+
qed

lemma processServerResponse_conflict_post:
  assumes "serverSchema_of response = Some serverSchema" "truthy serverSchema"
    and "response_data_updated response \<or> getSchemaHash serverSchema \<noteq> localSchemaHash"
    and "hasLocalChanges w lastPullTime"
    and "processServerResponse env response schemaData localSchemaHash lastPullTime w
           = (result, w')"
  shows "\<exists>evs. events w' = events w @ evs \<and> choice_precedes_writes False evs
           \<and> (first_answer env = None \<longrightarrow> evs = [])
           \<and> (\<forall>a. first_answer env = Some a \<longrightarrow> (\<exists>rest. evs = Chose a # rest))
           \<and> (final_choice env = None \<longrightarrow>
                 result = Inl PromptRejected \<and> schema_file w' = schema_file w
                 \<and> (\<forall>d. WroteSchema d \<notin> set evs))
           \<and> (final_choice env = Some LOCAL \<longrightarrow>
                 result = Inr KeptLocal \<and> schema_file w' = schema_file w
                 \<and> (\<forall>d. WroteSchema d \<notin> set evs))"
proof -
  obtain r0 w0 where h: "handleSchemaConflicts env schemaData serverSchema w = (r0, w0)"
    by (cases "handleSchemaConflicts env schemaData serverSchema w")
  from handleSchemaConflicts_post [OF h] obtain evs where
    post: "events w0 = events w @ evs \<and> choice_precedes_writes False evs
           \<and> last_pull_file w0 = last_pull_file w
           \<and> (first_answer env = None \<longrightarrow> evs = [])
           \<and> (\<forall>a. first_answer env = Some a \<longrightarrow> (\<exists>rest. evs = Chose a # rest))
           \<and> (final_choice env = None \<longrightarrow>
                 r0 = Inl PromptRejected \<and> schema_file w0 = schema_file w
                 \<and> (\<forall>d. WroteSchema d \<notin> set evs))
           \<and> (final_choice env = Some LOCAL \<longrightarrow>
                 r0 = Inr KeptLocal \<and> schema_file w0 = schema_file w
                 \<and> (\<forall>d. WroteSchema d \<notin> set evs))" ..
  note evs = post [THEN conjunct1] post [THEN conjunct2, THEN conjunct1]
    post [THEN conjunct2, THEN conjunct2, THEN conjunct2, THEN conjunct1]
    post [THEN conjunct2, THEN conjunct2, THEN conjunct2, THEN conjunct2, THEN conjunct1]
    post [THEN conjunct2, THEN conjunct2, THEN conjunct2, THEN conjunct2, THEN conjunct2,
          THEN conjunct1]
    post [THEN conjunct2, THEN conjunct2, THEN conjunct2, THEN conjunct2, THEN conjunct2,
          THEN conjunct2]
  have p: "(case r0 of
              Inl e \<Rightarrow> (Inl e, w0)
            | Inr outcome \<Rightarrow>
                (Inr outcome, updateLastPullTime (pull_now env) (getSchemaHash serverSchema) w0))
           = (result, w')"
    using assms(5) unfolding processServerResponse_conflict [OF assms(1-4) h] .
  show ?thesis
  proof (cases r0)
    case (Inl e)
    with p have eq: "result = r0" "w' = w0" by simp_all
    show ?thesis by (rule conflict_post_failed [OF evs eq])
  next
    case (Inr outcome)
    with p have res: "result = r0"
      and w': "w' = updateLastPullTime (pull_now env) (getSchemaHash serverSchema) w0"
      by simp_all
    show ?thesis by (rule conflict_post_resolved [OF evs res w' Inr])
  qed
qed

lemma resolveConflict_outcome:
  assumes "resolveConflict action now localSchema serverSchema w = (Inr outcome, w')"
  shows "outcome \<in> {KeptLocal, Merged, ReplacedWithServer}"
  using assms by (auto simp add: resolveConflict_def split: if_splits sum.splits)

lemma handleSchemaConflicts_outcome:
  assumes "handleSchemaConflicts env localSchema serverSchema w = (Inr outcome, w')"
  shows "outcome \<in> {KeptLocal, Merged, ReplacedWithServer}"
proof (cases "first_answer env")
  case None
  with assms show ?thesis by (simp add: handleSchemaConflicts_def)
next
  case first: (Some a)
  show ?thesis
  proof (cases "a = DIFF")
    case False
    with first assms have "resolveConflict a (pull_now env) localSchema serverSchema
        (emit (Chose a) w) = (Inr outcome, w')"
      by (simp add: handleSchemaConflicts_def)
    then show ?thesis by (rule resolveConflict_outcome)
  next
    case True
    show ?thesis
    proof (cases "second_answer env")
      case None
      with True first assms show ?thesis
        by (simp add: handleSchemaConflicts_def handleDiffView_def)
    next
      case (Some b)
      with True first assms have "resolveConflict b (pull_now env) localSchema serverSchema
          (emit (Chose b) (emit DiffShown (emit (Chose a) w))) = (Inr outcome, w')"
        by (simp add: handleSchemaConflicts_def handleDiffView_def)
      then show ?thesis by (rule resolveConflict_outcome)
    qed
  qed
qed


text \<open>
  Claim C2. When the server schema differs in hash from the local one, or the server
  flags an update, and the schema file is newer than the last pull, the processing of
  the response asks for a resolution. Nothing happens before the first answer, and
  every write of the schema file comes directly after an answer. Without an answer
  the run fails and the schema file is as before. When the choice is to keep the
  local version, whether at once or after viewing the differences, the schema file is
  not written at all.
\<close>

theorem pull_conflict_requires_choice:
  assumes "serverSchema_of response = Some serverSchema" "truthy serverSchema"
    and "response_data_updated response \<or> getSchemaHash serverSchema \<noteq> localSchemaHash"
    and "hasLocalChanges w lastPullTime"
    and "processServerResponse env response schemaData localSchemaHash lastPullTime w
           = (result, w')"
  shows "\<exists>evs. events w' = events w @ evs \<and> choice_precedes_writes False evs
           \<and> (first_answer env = None \<longrightarrow> evs = [])
           \<and> (\<forall>a. first_answer env = Some a \<longrightarrow> (\<exists>rest. evs = Chose a # rest))
           \<and> (final_choice env = None \<longrightarrow>
                 result = Inl PromptRejected \<and> schema_file w' = schema_file w
                 \<and> (\<forall>d. WroteSchema d \<notin> set evs))
           \<and> (final_choice env = Some LOCAL \<longrightarrow>
                 result = Inr KeptLocal \<and> schema_file w' = schema_file w
                 \<and> (\<forall>d. WroteSchema d \<notin> set evs))"
  by (rule processServerResponse_conflict_post [OF assms])

text \<open>
  The theorem at a response that flags an update, with a schema file newer than the
  last pull and the answers to view the differences and then to keep the local version:
  the run ends with the local version kept and the schema file as it was.
\<close>

theorem pull_conflict_requires_choice_witness:
  "hasLocalChanges world7 (Date 1690000000000)
   \<and> final_choice env_keep_local = Some LOCAL
   \<and> fst (processServerResponse env_keep_local response_changed schema5 ''h0qy4n''
             (Date 1690000000000) world7) = Inr KeptLocal
   \<and> schema_file (snd (processServerResponse env_keep_local response_changed schema5 ''h0qy4n''
             (Date 1690000000000) world7)) = schema_file world7"
proof -
  obtain result w' where run: "processServerResponse env_keep_local response_changed schema5
      ''h0qy4n'' (Date 1690000000000) world7 = (result, w')"
    by (cases "processServerResponse env_keep_local response_changed schema5
      ''h0qy4n'' (Date 1690000000000) world7")
  have 1: "serverSchema_of response_changed = Some server_schema"
    by (simp add: serverSchema_of_def response_changed_def truthy_opt_def server_schema_def)
  have 2: "truthy server_schema" by (simp add: server_schema_def)
  have 3: "response_data_updated response_changed \<or> getSchemaHash server_schema \<noteq> ''h0qy4n''"
    by (simp add: response_changed_def)
  have 4: "hasLocalChanges world7 (Date 1690000000000)"
    by (simp add: hasLocalChanges_def getSchemaLastModified_def world7_def)
  have f: "final_choice env_keep_local = Some LOCAL"
    by (simp add: final_choice_def env_keep_local_def)
  from pull_conflict_requires_choice [OF 1 2 3 4 run] obtain evs where
    post: "events w' = events world7 @ evs \<and> choice_precedes_writes False evs
           \<and> (first_answer env_keep_local = None \<longrightarrow> evs = [])
           \<and> (\<forall>a. first_answer env_keep_local = Some a \<longrightarrow> (\<exists>rest. evs = Chose a # rest))
           \<and> (final_choice env_keep_local = None \<longrightarrow>
                 result = Inl PromptRejected \<and> schema_file w' = schema_file world7
                 \<and> (\<forall>d. WroteSchema d \<notin> set evs))
           \<and> (final_choice env_keep_local = Some LOCAL \<longrightarrow>
                 result = Inr KeptLocal \<and> schema_file w' = schema_file world7
                 \<and> (\<forall>d. WroteSchema d \<notin> set evs))" ..
  note keep = post [THEN conjunct2, THEN conjunct2, THEN conjunct2, THEN conjunct2,
      THEN conjunct2, THEN mp, OF f]
  from keep have "result = Inr KeptLocal" "schema_file w' = schema_file world7"
    by (rule conjunct1, rule conjunct2 [THEN conjunct1])
  with run 4 f show ?thesis by simp
qed





text \<open>
  Claim C10. With the last-pull file missing or unreadable, the last pull time is the
  epoch. A schema file modified after the epoch then counts as locally modified, and
  a pull that finds a changed or updated server schema does not overwrite the schema
  file on its own: after the request its first effect is the answer to the conflict
  prompt, every write of the schema file comes directly after an answer, and without
  an answer the pull fails and the schema file is as before.
\<close>

theorem first_pull_conflicts:
  assumes "last_pull_file w = None \<or> last_pull_file w = Some Unparseable"
    and "schema_file w = Some (Parsed schemaData, mtime)" "0 < mtime"
    and "pull_logged_in env" "pull_reply env = Inr response"
    and "serverSchema_of response = Some serverSchema" "truthy serverSchema"
    and "response_data_updated response
           \<or> getSchemaHash serverSchema \<noteq> getSchemaHash schemaData"
    and "pull env w = (outcome, w')"
  shows "lastPullTime_of w = Date 0 \<and> hasLocalChanges w (lastPullTime_of w)
       \<and> outcome \<noteq> Updated
       \<and> (\<exists>evs. events w' = events w @ HttpGet None # evs
              \<and> choice_precedes_writes False evs
              \<and> (\<forall>a. first_answer env = Some a \<longrightarrow> (\<exists>rest. evs = Chose a # rest))
              \<and> (first_answer env = None \<longrightarrow>
                    outcome = PullFailed PromptRejected \<and> evs = []
                    \<and> schema_file w' = schema_file w))"
proof -
  let ?w1 = "emit (HttpGet None) w"
  have epoch: "lastPullTime_of w = Date 0"
    using assms(1) by (auto simp add: lastPullTime_of_def)
  have mods: "hasLocalChanges w (lastPullTime_of w)"
    using assms(2,3) epoch by (simp add: hasLocalChanges_def getSchemaLastModified_def)
  then have mods1: "hasLocalChanges ?w1 (lastPullTime_of w)"
    by (simp add: hasLocalChanges_def getSchemaLastModified_def)
  obtain result w2 where p: "processServerResponse env response schemaData
      (getSchemaHash schemaData) (lastPullTime_of w) ?w1 = (result, w2)"
    by (cases "processServerResponse env response schemaData
      (getSchemaHash schemaData) (lastPullTime_of w) ?w1")
  from p assms(2,4,5,9) epoch
  have w': "w' = w2" and out: "outcome = (case result of Inl e \<Rightarrow> PullFailed e | Inr out \<Rightarrow> out)"
    by (auto simp add: pull_def checkSchemaExists_def getLocalSchemaInfo_def
        fetchServerSchema_def split: sum.splits)
  from processServerResponse_conflict_post [OF assms(6,7,8) mods1 p] obtain evs where
    post: "events w2 = events ?w1 @ evs \<and> choice_precedes_writes False evs
           \<and> (first_answer env = None \<longrightarrow> evs = [])
           \<and> (\<forall>a. first_answer env = Some a \<longrightarrow> (\<exists>rest. evs = Chose a # rest))
           \<and> (final_choice env = None \<longrightarrow>
                 result = Inl PromptRejected \<and> schema_file w2 = schema_file ?w1
                 \<and> (\<forall>d. WroteSchema d \<notin> set evs))
           \<and> (final_choice env = Some LOCAL \<longrightarrow>
                 result = Inr KeptLocal \<and> schema_file w2 = schema_file ?w1
                 \<and> (\<forall>d. WroteSchema d \<notin> set evs))" ..
  note e1 = post [THEN conjunct1]
    and e2 = post [THEN conjunct2, THEN conjunct1]
    and e3 = post [THEN conjunct2, THEN conjunct2, THEN conjunct1]
    and e4 = post [THEN conjunct2, THEN conjunct2, THEN conjunct2, THEN conjunct1]
    and e5 = post [THEN conjunct2, THEN conjunct2, THEN conjunct2, THEN conjunct2, THEN conjunct1]
  have notupdated: "outcome \<noteq> Updated"
  proof (cases result)
    case (Inl e)
    with out show ?thesis by simp
  next
    case (Inr out')
    obtain r0 w0 where h: "handleSchemaConflicts env schemaData serverSchema ?w1 = (r0, w0)"
      by (cases "handleSchemaConflicts env schemaData serverSchema ?w1")
    from p Inr have "r0 = Inr out'"
      unfolding processServerResponse_conflict [OF assms(6,7,8) mods1 h]
      by (cases r0) simp_all
    with h have "handleSchemaConflicts env schemaData serverSchema ?w1 = (Inr out', w0)"
      by simp
    then have "out' \<in> {KeptLocal, Merged, ReplacedWithServer}"
      by (rule handleSchemaConflicts_outcome)
    with Inr out show ?thesis by auto
  qed
  have unanswered: "first_answer env = None \<longrightarrow>
                    outcome = PullFailed PromptRejected \<and> evs = []
                    \<and> schema_file w' = schema_file w"
  proof
    assume none: "first_answer env = None"
    then have "final_choice env = None" by (simp add: final_choice_def)
    with e5 have "result = Inl PromptRejected" "schema_file w2 = schema_file ?w1" by simp_all
    with e3 none out w' show "outcome = PullFailed PromptRejected \<and> evs = []
                    \<and> schema_file w' = schema_file w" by simp
  qed
  have ev: "events w' = events w @ HttpGet None # evs" using e1 w' by simp
  have "\<exists>evs. events w' = events w @ HttpGet None # evs
              \<and> choice_precedes_writes False evs
              \<and> (\<forall>a. first_answer env = Some a \<longrightarrow> (\<exists>rest. evs = Chose a # rest))
              \<and> (first_answer env = None \<longrightarrow>
                    outcome = PullFailed PromptRejected \<and> evs = []
                    \<and> schema_file w' = schema_file w)"
    by (intro exI [of _ evs] conjI) (rule ev e2 e4 unanswered)+
  with epoch mods notupdated show ?thesis by (intro conjI)
qed

text \<open>
  The theorem at a first pull that finds a changed schema and gets no answer to the
  prompt: the pull fails and the schema file is the one it found.
\<close>

theorem first_pull_conflicts_witness:
  "last_pull_file world6 = None \<and> (0::int) < 1700000000000
   \<and> fst (pull env_no_answer world6) = PullFailed PromptRejected
   \<and> fst (pull env_no_answer world6) \<noteq> Updated
   \<and> schema_file (snd (pull env_no_answer world6)) = schema_file world6"
proof -
  obtain out w' where run: "pull env_no_answer world6 = (out, w')"
    by (cases "pull env_no_answer world6")
  have 1: "last_pull_file world6 = None \<or> last_pull_file world6 = Some Unparseable"
    by (simp add: world6_def)
  have 2: "schema_file world6 = Some (Parsed schema5, 1700000000000)"
    by (simp add: world6_def)
  have 3: "(0::int) < 1700000000000" by simp
  have 4: "pull_logged_in env_no_answer" by (simp add: env_no_answer_def)
  have 5: "pull_reply env_no_answer = Inr response_changed" by (simp add: env_no_answer_def)
  have 6: "serverSchema_of response_changed = Some server_schema"
    by (simp add: serverSchema_of_def response_changed_def truthy_opt_def server_schema_def)
  have 7: "truthy server_schema" by (simp add: server_schema_def)
  have 8: "response_data_updated response_changed
           \<or> getSchemaHash server_schema \<noteq> getSchemaHash schema5"
    by (simp add: response_changed_def)
  have none: "first_answer env_no_answer = None" by (simp add: env_no_answer_def)
  note concl = first_pull_conflicts [OF 1 2 3 4 5 6 7 8 run]
  from concl have nu: "out \<noteq> Updated" by (rule conjunct2 [THEN conjunct2, THEN conjunct1])
  from concl [THEN conjunct2, THEN conjunct2, THEN conjunct2] obtain evs where
    post: "events w' = events world6 @ HttpGet None # evs
              \<and> choice_precedes_writes False evs
              \<and> (\<forall>a. first_answer env_no_answer = Some a \<longrightarrow> (\<exists>rest. evs = Chose a # rest))
              \<and> (first_answer env_no_answer = None \<longrightarrow>
                    out = PullFailed PromptRejected \<and> evs = []
                    \<and> schema_file w' = schema_file world6)" ..
  from post [THEN conjunct2, THEN conjunct2, THEN conjunct2, THEN mp, OF none]
  have "out = PullFailed PromptRejected" "schema_file w' = schema_file world6" by simp_all
  with run nu 1 show ?thesis by (simp add: world6_def)
qed

end
